theory Spec2Isabelle
  imports Complex_Main "HOL-Library.Multiset"
begin

section \<open>Python values shared by the backend models\<close>

text \<open>
  The exception classes that the modelled Python code can meet.  All of them are
  subclasses of \<open>Exception\<close>; \<open>ImportError\<close> is the only one that the
  clause \<open>except ImportError\<close> catches.
\<close>

datatype py_exc =
  ImportError | ValueError | OSError | TimeoutExpired | RuntimeError | OverflowError

text \<open>The outcome of evaluating a Python expression: a value, or a raised exception.\<close>

datatype 'a outcome = Returns 'a | Raises py_exc

section \<open>Hardware detection and parameter calculation (\<open>manage.py\<close>, Phase 0)\<close>

text \<open>
  The dictionary \<open>config\<close> / \<open>hw\<close>: three optional keys.  A key that is absent from
  the dictionary is \<open>None\<close>; \<open>hw.get(key, default)\<close> supplies the default.
  VRAM and RAM are numbers in GB (\<open>vram_mb / 1024\<close>, \<open>available / 1024**3\<close>).
\<close>

record hw_config =
  gpu_vram_gb :: "real option"
  ram_gb :: "real option"
  cpu_cores :: "int option"

text \<open>
  \<open>detect_hardware\<close>.  Its three probes talk to the outside world, so their outcomes are
  the inputs of the model:
  \<^item> \<open>gpu_query\<close>: the body of the first \<open>try\<close> up to \<open>vram_mb\<close>
    (running \<open>nvidia-smi\<close> and parsing the first line as an integer number of MB);
    the handler is \<open>except Exception\<close>;
  \<^item> \<open>ram_query\<close>: \<open>import psutil; psutil.virtual_memory().available\<close> in bytes;
    the handler is \<open>except ImportError\<close>, every other exception leaves the function;
  \<^item> \<open>os_cpu_count\<close>: \<open>os.cpu_count()\<close>, an integer or \<open>None\<close>;
    \<open>x or 4\<close> replaces \<open>None\<close> and \<open>0\<close> by 4.
\<close>

definition cpu_count_or_4 :: "int option \<Rightarrow> int" where
  "cpu_count_or_4 os_cpu_count =
     (case os_cpu_count of None \<Rightarrow> 4 | Some n \<Rightarrow> if n = 0 then 4 else n)"

definition detect_hardware ::
  "int outcome \<Rightarrow> int outcome \<Rightarrow> int option \<Rightarrow> py_exc + hw_config" where
  "detect_hardware gpu_query ram_query os_cpu_count =
     (let vram = (case gpu_query of
                    Returns vram_mb \<Rightarrow> real_of_int vram_mb / 1024
                  | Raises e \<Rightarrow> 0)
      in case ram_query of
           Returns available \<Rightarrow>
             Inr \<lparr>gpu_vram_gb = Some vram,
                  ram_gb = Some (real_of_int available / 1024 ^ 3),
                  cpu_cores = Some (cpu_count_or_4 os_cpu_count)\<rparr>
         | Raises e \<Rightarrow>
             if e = ImportError
             then Inr \<lparr>gpu_vram_gb = Some vram,
                       ram_gb = Some 8,
                       cpu_cores = Some (cpu_count_or_4 os_cpu_count)\<rparr>
             else Inl e)"

text \<open>\<open>hw.get("gpu_vram_gb", 6)\<close>, \<open>hw.get("ram_gb", 8)\<close>, \<open>hw.get("cpu_cores", 8)\<close>.\<close>

definition vram_of :: "hw_config \<Rightarrow> real" where
  "vram_of hw = (case gpu_vram_gb hw of None \<Rightarrow> 6 | Some v \<Rightarrow> v)"

definition ram_of :: "hw_config \<Rightarrow> real" where
  "ram_of hw = (case ram_gb hw of None \<Rightarrow> 8 | Some r \<Rightarrow> r)"

definition cores_of :: "hw_config \<Rightarrow> int" where
  "cores_of hw = (case cpu_cores hw of None \<Rightarrow> 8 | Some c \<Rightarrow> c)"

text \<open>The VRAM tiers: \<open>(det_batch, rec_batch)\<close>.\<close>

definition batch_sizes :: "real \<Rightarrow> int \<times> int" where
  "batch_sizes vram =
     (if vram \<le> 4 then (1, 8)
      else if vram \<le> 6 then (2, 16)
      else if vram \<le> 8 then (3, 24)
      else (4, 32))"

text \<open>Python's \<open>int(x)\<close> on a number: truncation towards zero.\<close>

definition py_trunc :: "real \<Rightarrow> int" where
  "py_trunc x = (if 0 \<le> x then \<lfloor>x\<rfloor> else \<lceil>x\<rceil>)"

text \<open>
  \<open>prefetch = max(4, min(int(ram / 0.5), 16))\<close>.  The quotient is a float: from
  \<open>2 ^ 1024\<close> on it is infinite, and \<open>int\<close> of an infinite float raises
  \<open>OverflowError\<close>.
\<close>

definition prefetch_size :: "real \<Rightarrow> py_exc + int" where
  "prefetch_size ram =
     (if 2 ^ 1024 \<le> \<bar>ram / (1 / 2)\<bar> then Inl OverflowError
      else Inr (max 4 (min (py_trunc (ram / (1 / 2))) 16)))"

text \<open>\<open>workers = max(2, min(cores // 2, 6))\<close>; \<open>//\<close> is floor division, as \<open>div\<close> on \<open>int\<close>.\<close>

definition max_workers :: "int \<Rightarrow> int" where
  "max_workers cores = max 2 (min (cores div 2) 6)"

text \<open>Python's \<open>str\<close> on an integer: decimal digits, a minus sign for negatives.\<close>

fun str_nat :: "nat \<Rightarrow> string" where
  "str_nat n =
     (if n < 10 then [''0123456789'' ! n]
      else str_nat (n div 10) @ [''0123456789'' ! (n mod 10)])"

declare str_nat.simps [simp del]

definition str_int :: "int \<Rightarrow> string" where
  "str_int i = (if i < 0 then CHR ''-'' # str_nat (nat (- i)) else str_nat (nat i))"

text \<open>
  \<open>calculate_optimal_params\<close>: the returned dictionary of environment settings, or
  the exception that the prefetch computation raises.
\<close>

definition calculate_optimal_params :: "hw_config \<Rightarrow> py_exc + (string \<rightharpoonup> string)" where
  "calculate_optimal_params hw =
     (let vram = vram_of hw;
          ram = ram_of hw;
          cores = cores_of hw;
          (det_batch, rec_batch) = batch_sizes vram
      in case prefetch_size ram of
           Inl e \<Rightarrow> Inl e
         | Inr prefetch \<Rightarrow>
             let workers = max_workers cores
             in Inr [''EXAMPAPER_DET_BATCH_SIZE'' \<mapsto> str_int det_batch,
                     ''EXAMPAPER_REC_BATCH_SIZE'' \<mapsto> str_int rec_batch,
                     ''EXAMPAPER_PREFETCH_SIZE'' \<mapsto> str_int prefetch,
                     ''EXAMPAPER_MAX_WORKERS'' \<mapsto> str_int workers])"

text \<open>
  The worker count as the spec and the README give it: \<open>clamp(cpu_cores // 2, 2, 4)\<close>,
  a ceiling of 4 workers on every machine.
\<close>

definition spec_worker_count :: "int \<Rightarrow> int" where
  "spec_worker_count cores = max 2 (min (cores div 2) 4)"

text \<open>
  The number that a decimal text denotes (\<open>None\<close> for any other text); it is the
  inverse of \<open>str\<close> and serves to compare written settings as numbers.
\<close>

fun decimal_value :: "nat \<Rightarrow> string \<Rightarrow> nat option" where
  "decimal_value acc [] = Some acc"
| "decimal_value acc (c # cs) =
     (if 48 \<le> (of_char c :: nat) \<and> (of_char c :: nat) \<le> 57
      then decimal_value (10 * acc + ((of_char c :: nat) - 48)) cs
      else None)"

definition read_int :: "string \<Rightarrow> int option" where
  "read_int s =
     (case s of
        [] \<Rightarrow> None
      | c # cs \<Rightarrow>
          if c = CHR ''-'' then (if cs = [] then None
                                else map_option (\<lambda>n. - int n) (decimal_value 0 cs))
          else map_option int (decimal_value 0 s))"

text \<open>The number written under a key of the returned dictionary.\<close>

definition number_at :: "(string \<rightharpoonup> string) \<Rightarrow> string \<Rightarrow> int option" where
  "number_at params key = (case params key of None \<Rightarrow> None | Some text \<Rightarrow> read_int text)"

text \<open>Profiles for concrete runs: 24 GB of RAM, 8 or 12 cores, 4, 6 or 12 GB of VRAM.\<close>

definition profile :: "real \<Rightarrow> int \<Rightarrow> hw_config" where
  "profile vram cores = \<lparr>gpu_vram_gb = Some vram, ram_gb = Some 24, cpu_cores = Some cores\<rparr>"
section \<open>The hybrid scheduler (\<open>hybrid_pipeline.py\<close>)\<close>

subsection \<open>Configuration from the environment\<close>

text \<open>\<open>os.getenv(key, default)\<close> on an environment \<open>env\<close>.\<close>

definition getenv :: "(string \<rightharpoonup> string) \<Rightarrow> string \<Rightarrow> string \<Rightarrow> string" where
  "getenv env key dflt = (case env key of None \<Rightarrow> dflt | Some v \<Rightarrow> v)"


text \<open>
  A Python float: a finite number, an infinity or not-a-number.  \<open>float\<close> of a text can
  return any of them (\<open>float("inf")\<close>, \<open>float("nan")\<close>).
\<close>

datatype py_float = Num real | PosInf | NegInf | NaN

subsection \<open>The manager and its two semaphores\<close>

text \<open>
  \<open>HybridPipelineManager\<close>.  A \<open>threading.Semaphore\<close> is its counter: \<open>acquire\<close>
  takes one unit when the counter is positive, \<open>release\<close> adds one.  Pipelines are
  opaque handles of type \<open>'p\<close>; \<open>None\<close> is Python's \<open>None\<close>.
\<close>

record 'p manager =
  gpu_pipeline :: "'p option"
  cpu_pipeline :: "'p option"
  gpu_sem :: nat
  cpu_sem :: nat

text \<open>
  \<open>__init__\<close>: \<open>Semaphore(1)\<close> and
  \<open>Semaphore(int(os.getenv("EXAMPAPER_CPU_OCR_SLOTS", "2")))\<close>.  Python's built-in
  \<open>int\<close> on a text is the parameter \<open>int_of\<close>, with \<open>None\<close> for the \<open>ValueError\<close>
  it raises on a text that is no integer; \<open>Semaphore\<close> raises \<open>ValueError\<close> on a
  negative value.
\<close>

definition manager_init ::
  "(string \<Rightarrow> int option) \<Rightarrow> (string \<rightharpoonup> string) \<Rightarrow> py_exc + 'p manager" where
  "manager_init int_of env =
     (case int_of (getenv env ''EXAMPAPER_CPU_OCR_SLOTS'' ''2'') of
        None \<Rightarrow> Inl ValueError
      | Some n \<Rightarrow>
          if n < 0 then Inl ValueError
          else Inr \<lparr>gpu_pipeline = None, cpu_pipeline = None,
                    gpu_sem = 1, cpu_sem = nat n\<rparr>)"

subsection \<open>The timed wait on the CPU semaphore\<close>

text \<open>
  \<open>_cpu_sem.acquire(blocking=True, timeout=timeout)\<close> runs, in \<open>threading.py\<close>,
  \<^verbatim>\<open>
  while self._value == 0:
      if endtime is None: endtime = _time() + timeout
      else:
          timeout = endtime - _time()
          if timeout <= 0: break
      self._cond.wait(timeout)
  else:
      self._value -= 1; rc = True
  \<close>
  and \<open>Condition.wait(timeout)\<close> blocks in \<open>waiter.acquire(True, timeout)\<close> when
  \<open>timeout > 0\<close> and polls with \<open>waiter.acquire(False)\<close> otherwise.  The lock refuses
  a timeout above \<open>threading.TIMEOUT_MAX\<close> with \<open>OverflowError\<close>; that constant
  depends on the platform and is the parameter \<open>tmax\<close> of the model.
\<close>

text \<open>\<open>timeout > 0\<close> and too large for the lock: the first wait raises.\<close>

definition too_large :: "real \<Rightarrow> py_float \<Rightarrow> bool" where
  "too_large tmax timeout =
     (case timeout of Num d \<Rightarrow> 0 < d \<and> tmax < d | PosInf \<Rightarrow> True | NegInf \<Rightarrow> False
      | NaN \<Rightarrow> False)"

text \<open>\<open>endtime = _time() + timeout\<close>.\<close>

definition endtime_of :: "real \<Rightarrow> py_float \<Rightarrow> py_float" where
  "endtime_of now timeout =
     (case timeout of Num d \<Rightarrow> Num (now + d) | PosInf \<Rightarrow> PosInf | NegInf \<Rightarrow> NegInf
      | NaN \<Rightarrow> NaN)"

text \<open>\<open>timeout = endtime - _time(); timeout <= 0\<close>; a comparison with not-a-number is false.\<close>

definition expired :: "real \<Rightarrow> py_float \<Rightarrow> bool" where
  "expired now endtime =
     (case endtime of Num e \<Rightarrow> e - now \<le> 0 | PosInf \<Rightarrow> False | NegInf \<Rightarrow> True
      | NaN \<Rightarrow> False)"

subsection \<open>Concurrent calls of \<open>acquire\<close>\<close>

text \<open>The device tag that \<open>acquire\<close> yields next to the pipeline: \<open>"gpu"\<close> or \<open>"cpu"\<close>.\<close>

datatype device = Gpu | Cpu

text \<open>
  Where one caller of \<open>with manager.acquire(log_fn) as (pipe, dev): body\<close> stands.
  The flag of the CPU states records whether \<open>log_fn\<close> was given.
  \<^item> \<open>Idle\<close>: before the call;
  \<^item> \<open>CpuTry timeout\<close>: the non-blocking GPU attempt returned \<open>False\<close> and
    \<open>float(...)\<close> returned \<open>timeout\<close>; about to call \<open>_cpu_sem.acquire\<close>;
  \<^item> \<open>CpuWait endtime\<close>: blocked inside \<open>_cpu_sem.acquire\<close> until \<open>endtime\<close>;
  \<^item> \<open>CpuHeld\<close>: holds a CPU permit, about to run \<open>_ensure_cpu_pipeline\<close>;
  \<^item> \<open>CpuCreating\<close>: saw \<open>_cpu_pipeline is None\<close>, inside \<open>_create_ppstructure\<close>;
  \<^item> \<open>CpuReady pipe\<close>: has the CPU pipeline, about to call \<open>log_fn\<close> (if given) and
    to yield;
  \<^item> \<open>GpuWait\<close>: in \<open>_gpu_sem.acquire(blocking=True)\<close>;
  \<^item> \<open>Body pipe dev\<close>: suspended at \<open>yield (pipe, dev)\<close>, the caller's body runs;
  \<^item> \<open>Exited r\<close>: control is back at the caller, normally (\<open>None\<close>) or with the
    exception that left the \<open>with\<close> statement.
\<close>

datatype 'p pc =
    Idle
  | CpuTry bool py_float
  | CpuWait bool py_float
  | CpuHeld bool
  | CpuCreating bool
  | CpuReady bool "'p option"
  | GpuWait
  | Body "'p option" device
  | Exited "py_exc option"

text \<open>
  What can happen to one caller.
  \<^item> \<open>Enter log_fn timeout\<close>: it enters \<open>acquire\<close> and tries the GPU semaphore without
    blocking; \<open>timeout\<close> is the outcome of
    \<open>float(os.getenv("EXAMPAPER_CPU_FALLBACK_TIMEOUT", "0.1"))\<close>, evaluated only when the
    GPU is busy;
  \<^item> \<open>Begin\<close>: it calls \<open>_cpu_sem.acquire(blocking=True, timeout=timeout)\<close>;
  \<^item> \<open>Granted\<close>: the semaphore it waits on gives it a permit;
  \<^item> \<open>Timeout\<close>: the timed wait on the CPU semaphore gives up;
  \<^item> \<open>Check\<close>: \<open>_ensure_cpu_pipeline\<close> tests \<open>self._cpu_pipeline is None\<close>;
  \<^item> \<open>Created p\<close>, \<open>CreateFailed e\<close>: \<open>_create_ppstructure(device="cpu")\<close> returns
    the pipeline \<open>p\<close>, or raises;
  \<^item> \<open>Logged\<close>, \<open>LogRaised e\<close>: the lines \<open>if log_fn: log_fn(...)\<close> are passed, or
    \<open>log_fn\<close> raises;
  \<^item> \<open>BodyReturns\<close>, \<open>BodyRaises e\<close>: the caller's body ends, or raises.
\<close>

datatype 'p event =
    Enter bool "py_float outcome"
  | Begin
  | Granted
  | Timeout
  | Check
  | Created 'p
  | CreateFailed py_exc
  | Logged
  | LogRaised py_exc
  | BodyReturns
  | BodyRaises py_exc


text \<open>The shared state: the manager, every caller's position, the log, the clock.\<close>

record 'p sched =
  mgr :: "'p manager"
  pcs :: "'p pc list"
  logged :: "string list"
  clock :: real

definition log_cpu :: "bool \<Rightarrow> string list \<Rightarrow> string list" where
  "log_cpu log_fn msgs = (if log_fn then msgs @ [''[Hybrid] GPU busy, using CPU''] else msgs)"

text \<open>\<open>finally: self._gpu_sem.release()\<close> or \<open>finally: self._cpu_sem.release()\<close>.\<close>

definition release :: "device \<Rightarrow> 'p manager \<Rightarrow> 'p manager" where
  "release dev m =
     (case dev of
        Gpu \<Rightarrow> m\<lparr>gpu_sem := gpu_sem m + 1\<rparr>
      | Cpu \<Rightarrow> m\<lparr>cpu_sem := cpu_sem m + 1\<rparr>)"

text \<open>
  One atomic step of a caller at time \<open>now\<close>.  \<open>None\<close>: the event cannot happen in this
  state (a grant needs a positive counter; the timed wait gives up only while the
  counter is 0 and the end time is reached; \<open>log_fn\<close> can only raise when it was
  given).
\<close>

fun acquire_step :: "real \<Rightarrow> real \<Rightarrow> 'p pc \<Rightarrow> 'p event \<Rightarrow> 'p manager \<Rightarrow> string list
    \<Rightarrow> ('p pc \<times> 'p manager \<times> string list) option" where
  "acquire_step tmax now Idle ev m msgs =
     (case ev of
        Enter log_fn timeout \<Rightarrow>
          if 0 < gpu_sem m
          then Some (Body (gpu_pipeline m) Gpu, m\<lparr>gpu_sem := gpu_sem m - 1\<rparr>, msgs)
          else (case timeout of
                  Raises e \<Rightarrow> Some (Exited (Some e), m, msgs)
                | Returns seconds \<Rightarrow> Some (CpuTry log_fn seconds, m, msgs))
      | _ \<Rightarrow> None)"
| "acquire_step tmax now (CpuTry log_fn timeout) ev m msgs =
     (case ev of
        Begin \<Rightarrow>
          if 0 < cpu_sem m
          then Some (CpuHeld log_fn, m\<lparr>cpu_sem := cpu_sem m - 1\<rparr>, msgs)
          else if too_large tmax timeout then Some (Exited (Some OverflowError), m, msgs)
          else Some (CpuWait log_fn (endtime_of now timeout), m, msgs)
      | _ \<Rightarrow> None)"
| "acquire_step tmax now (CpuWait log_fn endtime) ev m msgs =
     (case ev of
        Granted \<Rightarrow>
          if 0 < cpu_sem m
          then Some (CpuHeld log_fn, m\<lparr>cpu_sem := cpu_sem m - 1\<rparr>, msgs)
          else None
      | Timeout \<Rightarrow>
          if cpu_sem m = 0 \<and> expired now endtime then Some (GpuWait, m, msgs) else None
      | _ \<Rightarrow> None)"
| "acquire_step tmax now (CpuHeld log_fn) ev m msgs =
     (case ev of
        Check \<Rightarrow>
          (case cpu_pipeline m of
             None \<Rightarrow> Some (CpuCreating log_fn, m, msgs)
           | Some p \<Rightarrow> Some (CpuReady log_fn (Some p), m, msgs))
      | _ \<Rightarrow> None)"
| "acquire_step tmax now (CpuCreating log_fn) ev m msgs =
     (case ev of
        Created p \<Rightarrow> Some (CpuReady log_fn (Some p), m\<lparr>cpu_pipeline := Some p\<rparr>, msgs)
      | CreateFailed e \<Rightarrow> Some (Exited (Some e), release Cpu m, msgs)
      | _ \<Rightarrow> None)"
| "acquire_step tmax now (CpuReady log_fn pipe) ev m msgs =
     (case ev of
        Logged \<Rightarrow> Some (Body pipe Cpu, m, log_cpu log_fn msgs)
      | LogRaised e \<Rightarrow> if log_fn then Some (Exited (Some e), release Cpu m, msgs) else None
      | _ \<Rightarrow> None)"
| "acquire_step tmax now GpuWait ev m msgs =
     (case ev of
        Granted \<Rightarrow>
          if 0 < gpu_sem m
          then Some (Body (gpu_pipeline m) Gpu, m\<lparr>gpu_sem := gpu_sem m - 1\<rparr>, msgs)
          else None
      | _ \<Rightarrow> None)"
| "acquire_step tmax now (Body pipe dev) ev m msgs =
     (case ev of
        BodyReturns \<Rightarrow> Some (Exited None, release dev m, msgs)
      | BodyRaises e \<Rightarrow> Some (Exited (Some e), release dev m, msgs)
      | _ \<Rightarrow> None)"
| "acquire_step tmax now (Exited r) ev m msgs = None"

definition caller_step :: "real \<Rightarrow> nat \<Rightarrow> 'p event \<Rightarrow> 'p sched \<Rightarrow> 'p sched option" where
  "caller_step tmax t ev s =
     (if t < length (pcs s)
      then (case acquire_step tmax (clock s) (pcs s ! t) ev (mgr s) (logged s) of
              None \<Rightarrow> None
            | Some (pc', m', msgs') \<Rightarrow> Some (s\<lparr>mgr := m', pcs := (pcs s)[t := pc'], logged := msgs'\<rparr>))
      else None)"

text \<open>What a schedule is made of: a caller's event, or time passing.\<close>

datatype 'p action = Call nat "'p event" | Tick real

definition sched_step :: "real \<Rightarrow> 'p action \<Rightarrow> 'p sched \<Rightarrow> 'p sched option" where
  "sched_step tmax a s =
     (case a of
        Call t ev \<Rightarrow> caller_step tmax t ev s
      | Tick d \<Rightarrow> if 0 \<le> d then Some (s\<lparr>clock := clock s + d\<rparr>) else None)"

text \<open>A schedule is run from left to right; an action that cannot happen is skipped.\<close>

fun run :: "real \<Rightarrow> 'p action list \<Rightarrow> 'p sched \<Rightarrow> 'p sched" where
  "run tmax [] s = s"
| "run tmax (a # rest) s =
     run tmax rest (case sched_step tmax a s of None \<Rightarrow> s | Some s' \<Rightarrow> s')"

text \<open>\<open>n\<close> callers that share one freshly built manager, at time 0.\<close>

definition start :: "'p manager \<Rightarrow> nat \<Rightarrow> 'p sched" where
  "start m n = \<lparr>mgr = m, pcs = replicate n Idle, logged = [], clock = 0\<rparr>"

text \<open>Which callers hold a permit of which semaphore, and which run their body.\<close>

fun holds_gpu :: "'p pc \<Rightarrow> bool" where
  "holds_gpu (Body pipe Gpu) = True"
| "holds_gpu _ = False"

fun holds_cpu :: "'p pc \<Rightarrow> bool" where
  "holds_cpu (CpuHeld log_fn) = True"
| "holds_cpu (CpuCreating log_fn) = True"
| "holds_cpu (CpuReady log_fn pipe) = True"
| "holds_cpu (Body pipe Cpu) = True"
| "holds_cpu _ = False"

fun in_body :: "device \<Rightarrow> 'p pc \<Rightarrow> bool" where
  "in_body dev (Body pipe dev') = (dev = dev')"
| "in_body dev _ = False"

fun at_caller :: "'p pc \<Rightarrow> bool" where
  "at_caller Idle = True"
| "at_caller (Exited r) = True"
| "at_caller _ = False"


definition how_many :: "('a \<Rightarrow> bool) \<Rightarrow> 'a list \<Rightarrow> nat" where
  "how_many P xs = length (filter P xs)"

text \<open>
  Permit conservation for initial counters \<open>g\<close> and \<open>c\<close>: each semaphore's counter plus
  the number of callers that hold one of its permits is the initial counter.
\<close>

definition conserved :: "nat \<Rightarrow> nat \<Rightarrow> 'p sched \<Rightarrow> bool" where
  "conserved g c s =
     (gpu_sem (mgr s) + how_many holds_gpu (pcs s) = g
      \<and> cpu_sem (mgr s) + how_many holds_cpu (pcs s) = c)"




text \<open>
  Concrete runs.  \<open>plain_int\<close> stands in for Python's \<open>int\<close>: it reads an unsigned
  decimal text; \<open>plain_float\<close> stands in for \<open>float\<close> on the texts \<open>0.1\<close> and
  \<open>inf\<close>.  \<open>two_cpu_slots\<close> is the manager that \<open>__init__\<close> builds when
  \<open>EXAMPAPER_CPU_OCR_SLOTS\<close> is unset, \<open>linux_timeout_max\<close> the value of
  \<open>threading.TIMEOUT_MAX\<close> on 64-bit Linux.  After \<open>busy_prefix\<close> caller 0 has
  the GPU and callers 1 and 2 the two CPU permits (the state \<open>both_busy\<close>); in
  \<open>contended_schedule\<close> caller 3 then waits a tenth of a second for the CPU and goes
  on to wait for the GPU.  \<open>overflow_schedule\<close> is the same contention with
  \<open>EXAMPAPER_CPU_FALLBACK_TIMEOUT=inf\<close> in the environment of caller 3.  In \<open>exiting_schedule\<close> all callers leave, one body raising,
  one construction of a second CPU pipeline failing.  In \<open>busy_schedule\<close> five callers
  compete.
\<close>

definition plain_int :: "string \<Rightarrow> int option" where
  "plain_int s = (if s = [] then None else map_option int (decimal_value 0 s))"


definition two_cpu_slots :: "nat manager" where
  "two_cpu_slots = \<lparr>gpu_pipeline = None, cpu_pipeline = None, gpu_sem = 1, cpu_sem = 2\<rparr>"

definition linux_timeout_max :: real where
  "linux_timeout_max = 9223372036"

definition in_time :: "py_float outcome" where
  "in_time = Returns (Num (1 / 10))"





definition exiting_schedule :: "nat action list" where
  "exiting_schedule =
     [Call 0 (Enter False in_time), Call 1 (Enter True in_time), Call 2 (Enter False in_time),
      Call 1 Begin, Call 2 Begin, Call 1 Check, Call 2 Check,
      Call 1 (Created 7), Call 2 (CreateFailed OSError), Call 1 Logged,
      Call 0 (BodyRaises RuntimeError), Call 1 BodyReturns]"

definition busy_schedule :: "nat action list" where
  "busy_schedule =
     [Call 0 (Enter False in_time), Call 1 (Enter False in_time), Call 2 (Enter False in_time),
      Call 3 (Enter False in_time), Call 1 Begin, Call 1 Check, Call 1 (Created 7),
      Call 1 Logged, Call 2 Begin, Call 2 Check, Call 2 Logged, Call 3 Begin, Tick 1,
      Call 3 Timeout, Call 4 (Enter False in_time), Call 4 Begin, Call 4 Timeout,
      Call 3 Granted, Call 0 (BodyRaises OSError), Call 4 Granted, Call 3 Granted,
      Call 4 (Enter True in_time)]"
section \<open>The page worker pool\<close>

text \<open>
  Modelled from the spec: \<open>PageWorkerPool.process_pages\<close>
  (\<open>services/parallel_extraction.py\<close> is not among the sources; the spec's section 4.5
  is followed).  Each page is tagged with its original index; consumers finish the
  tagged units in some order \<open>finished\<close> (a list of indices); every unit's inference
  outcome is captured per page; the results are re-ordered by their tags before they are
  returned.  Under the fail-fast policy the first error, in completion order,
  propagates instead.
\<close>

definition tag_pages :: "'a list \<Rightarrow> (nat \<times> 'a) list" where
  "tag_pages pages = enumerate 0 pages"

text \<open>
  Modelled from the spec: the first captured error of a list of page outcomes, which
  fail-fast propagates (the pool's source is missing).
\<close>

fun first_error :: "('e + 'r) list \<Rightarrow> 'e option" where
  "first_error [] = None"
| "first_error (Inl e # rs) = Some e"
| "first_error (Inr r # rs) = first_error rs"

text \<open>
  Modelled from the spec: the collection step of the pool (its source is missing), which
  restores the input order from the tags.
\<close>

definition reorder :: "(nat \<times> 'r) list \<Rightarrow> 'r list" where
  "reorder completed = map snd (sort_key fst completed)"

text \<open>
  Modelled from the spec: \<open>process_pages(pages)\<close> of the pool (its source is
  missing), for a fail-fast setting, an inference function and a completion order.
\<close>

definition process_pages ::
  "bool \<Rightarrow> ('a \<Rightarrow> 'e + 'r) \<Rightarrow> nat list \<Rightarrow> 'a list \<Rightarrow> 'e + ('e + 'r) list" where
  "process_pages fail_fast infer finished pages =
     (let units = tag_pages pages;
          completed = map (\<lambda>k. (fst (units ! k), infer (snd (units ! k)))) finished
      in case (if fail_fast then first_error (map snd completed) else None) of
           Some e \<Rightarrow> Inl e
         | None \<Rightarrow> Inr (reorder completed))"

section \<open>The task store of the front end (\<open>useTaskStore.ts\<close>)\<close>

datatype TaskMode = Auto | Manual

datatype TaskStatus = TaskIdle | Uploading | Processing | Paused | TaskCompleted | TaskError

datatype StepStatus = Pending | Running | Completed | Failed | Skipped

record Step =
  index :: int
  name :: string
  title :: string
  desc :: string
  icon :: string
  status :: StepStatus
  error :: "string option"
  artifact_count :: int
  progress :: "real option"
  progress_text :: "string option"

text \<open>
  The log lines that the modelled actions add (\<open>addLog(message, type)\<close>); the random id
  and the time of a \<open>LogEntry\<close> are left out.
  \<^item> \<open>StepAction runToEnd title\<close>: the line of \<open>startStep\<close>;
  \<^item> \<open>StepStartFailed\<close>: its line when the request fails;
  \<^item> \<open>ServerMessage m\<close>: \<open>response.data.message\<close> of a restart;
  \<^item> \<open>StepReset n\<close>: the default line of a restart, with \<open>n = stepIndex + 1\<close>;
  \<^item> \<open>ResetFailed\<close>: the line of the \<open>catch\<close> of \<open>restartFromStep\<close>.
\<close>

datatype log_message =
    StepAction bool string
  | StepStartFailed
  | ServerMessage string
  | StepReset int
  | ResetFailed

datatype log_type = LogDefault | LogInfo | LogSuccess | LogError

record task_store =
  taskId :: "string option"
  task_status :: TaskStatus
  mode :: TaskMode
  steps :: "Step list"
  logs :: "(log_message \<times> log_type) list"

text \<open>An awaited request: the promise resolves with a value or rejects.\<close>

datatype 'a reply = Resolved 'a | Rejected

datatype js_error = TypeError

text \<open>\<open>xs[i]\<close> on a JavaScript array: \<open>undefined\<close> (\<open>None\<close>) outside the array.\<close>

definition js_nth :: "'a list \<Rightarrow> int \<Rightarrow> 'a option" where
  "js_nth xs i = (if 0 \<le> i \<and> nat i < length xs then Some (xs ! nat i) else None)"

text \<open>\<open>addLog\<close> of the logs store: push, then drop from the front beyond \<open>MAX_LOGS = 100\<close>.\<close>

definition addLog :: "log_message \<Rightarrow> log_type \<Rightarrow> task_store \<Rightarrow> task_store" where
  "addLog message type st =
     (let pushed = logs st @ [(message, type)]
      in st\<lparr>logs := drop (length pushed - 100) pushed\<rparr>)"

text \<open>\<open>!taskId.value\<close>: the id is \<open>null\<close> or the empty string.\<close>

definition no_task :: "task_store \<Rightarrow> bool" where
  "no_task st = (case taskId st of None \<Rightarrow> True | Some tid \<Rightarrow> tid = [])"

definition isBusy :: "task_store \<Rightarrow> bool" where
  "isBusy st = (task_status st = Uploading \<or> task_status st = Processing)"

text \<open>The step objects of a server response; only the fields that the store reads.\<close>

record step_data =
  sd_status :: StepStatus
  sd_error :: "string option"
  sd_artifact_count :: "int option"
  sd_progress :: "real option"
  sd_progress_text :: "string option"

text \<open>
  \<open>updateSteps\<close>, the handler of step events and of polling:
  \<open>stepsData.forEach((s, idx) => { if (steps.value[idx]) { ... } })\<close>;
  \<open>s.error || null\<close> and \<open>s.artifact_count || 0\<close> also replace \<open>''\<close> and \<open>0\<close>.
\<close>

fun updateSteps :: "step_data list \<Rightarrow> Step list \<Rightarrow> Step list" where
  "updateSteps (s # stepsData) (x # xs) =
     x\<lparr>status := sd_status s,
       error := (case sd_error s of None \<Rightarrow> None | Some e \<Rightarrow> if e = [] then None else Some e),
       artifact_count := (case sd_artifact_count s of None \<Rightarrow> 0 | Some n \<Rightarrow> n),
       progress := sd_progress s,
       progress_text := sd_progress_text s\<rparr> # updateSteps stepsData xs"
| "updateSteps stepsData xs = xs"

text \<open>
  \<open>startStep(stepIndex, runToEnd)\<close>.  \<open>start_reply\<close> is the outcome of
  \<open>api.startStep\<close>.  The assignment \<open>steps.value[stepIndex].status = 'running'\<close>
  throws a \<open>TypeError\<close> when there is no such step, after the store's status has
  been set; the result carries the store and the error thrown, if any.
\<close>

definition startStep ::
  "unit reply \<Rightarrow> int \<Rightarrow> bool \<Rightarrow> task_store \<Rightarrow> task_store \<times> js_error option" where
  "startStep start_reply stepIndex runToEnd st =
     (if no_task st then (st, None)
      else
          let st1 = st\<lparr>task_status := Processing\<rparr>
          in case js_nth (steps st1) stepIndex of
               None \<Rightarrow> (st1, Some TypeError)
             | Some x \<Rightarrow>
                 let st2 = st1\<lparr>steps := (steps st1)[nat stepIndex := x\<lparr>status := Running\<rparr>]\<rparr>;
                     st3 = addLog (StepAction runToEnd (title x)) LogInfo st2
                 in case start_reply of
                      Resolved u \<Rightarrow> (st3, None)
                    | Rejected \<Rightarrow>
                        let st4 = addLog StepStartFailed LogError st3
                        in (st4\<lparr>steps := (steps st4)[nat stepIndex :=
                                   (steps st4 ! nat stepIndex)\<lparr>status := Failed\<rparr>],
                                task_status := Paused\<rparr>, None))"

text \<open>
  The loop of \<open>restartFromStep\<close> over \<open>response.data.steps\<close>: every step of the store
  that has a counterpart in the response takes the response's status and has its error,
  artifact count and progress cleared.
\<close>

fun reset_steps :: "step_data list \<Rightarrow> Step list \<Rightarrow> Step list" where
  "reset_steps (s # stepsData) (x # xs) =
     x\<lparr>status := sd_status s,
       error := None,
       artifact_count := 0,
       progress := None,
       progress_text := None\<rparr> # reset_steps stepsData xs"
| "reset_steps stepsData xs = xs"

record restart_response =
  message :: "string option"
  response_steps :: "step_data list option"

text \<open>
  \<open>restartFromStep(stepIndex)\<close>.  \<open>restart_reply\<close> is the outcome of
  \<open>api.restartFromStep\<close>, \<open>start_reply\<close> that of the \<open>api.startStep\<close> which follows
  in manual mode.  Whatever is thrown inside the \<open>try\<close> ends in the \<open>catch\<close>, which
  logs the failure.
\<close>

definition restartFromStep ::
  "restart_response reply \<Rightarrow> unit reply \<Rightarrow> int \<Rightarrow> task_store \<Rightarrow> task_store" where
  "restartFromStep restart_reply start_reply stepIndex st =
     (if no_task st then st
      else
          (case restart_reply of
             Rejected \<Rightarrow> addLog ResetFailed LogError st
           | Resolved response \<Rightarrow>
               let st1 = (case response_steps response of
                            None \<Rightarrow> st
                          | Some stepsData \<Rightarrow> st\<lparr>steps := reset_steps stepsData (steps st)\<rparr>);
                   line = (case message response of
                             None \<Rightarrow> StepReset (stepIndex + 1)
                           | Some m \<Rightarrow> if m = [] then StepReset (stepIndex + 1)
                                       else ServerMessage m);
                   st2 = addLog line LogInfo st1
               in if mode st2 = Manual
                  then (case startStep start_reply stepIndex False st2 of
                          (st3, None) \<Rightarrow> st3
                        | (st3, Some err) \<Rightarrow> addLog ResetFailed LogError st3)
                  else st2))"

text \<open>
  \<open>canStartStep(step)\<close>.  Reading \<open>prevStep.status\<close> throws a \<open>TypeError\<close> when
  \<open>steps.value[step.index - 1]\<close> is \<open>undefined\<close>.
\<close>

definition hasRunning :: "Step list \<Rightarrow> bool" where
  "hasRunning xs = (filter (\<lambda>s. status s = Running) xs \<noteq> [])"

definition canStartStep :: "task_store \<Rightarrow> Step \<Rightarrow> js_error + bool" where
  "canStartStep st step =
     (if isBusy st then Inr False
      else if status step \<noteq> Pending then Inr False
      else if hasRunning (steps st) then Inr False
      else if mode st \<noteq> Manual \<and> index step > 0
      then (case js_nth (steps st) (index step - 1) of
              None \<Rightarrow> Inl TypeError
            | Some prevStep \<Rightarrow> if status prevStep \<noteq> Completed then Inr False else Inr True)
      else Inr True)"

subsection \<open>The step controls (\<open>StepItem.vue\<close>)\<close>

text \<open>
  The only callers of \<open>startStep\<close>, \<open>restartFromStep\<close> and \<open>canStartStep\<close> besides
  the store itself.  The controls of a step are rendered under
  \<open>v-if="store.mode === 'manual' && store.taskId"\<close>; inside, the two start buttons
  under \<open>v-if="canStart"\<close>, the restart button under
  \<open>v-if="displayStatus === 'completed'"\<close> and the retry buttons under
  \<open>v-if="displayStatus === 'failed'"\<close>; \<open>displayStatus\<close> is
  \<open>step.status || 'pending'\<close>, the step's status.
\<close>

definition controls_shown :: "task_store \<Rightarrow> bool" where
  "controls_shown st = (mode st = Manual \<and> \<not> no_task st)"

definition start_offered :: "task_store \<Rightarrow> Step \<Rightarrow> bool" where
  "start_offered st step = (controls_shown st \<and> canStartStep st step = Inr True)"

definition restart_offered :: "task_store \<Rightarrow> Step \<Rightarrow> bool" where
  "restart_offered st step = (controls_shown st \<and> status step = Completed)"

definition retry_offered :: "task_store \<Rightarrow> Step \<Rightarrow> bool" where
  "retry_offered st step = (controls_shown st \<and> status step = Failed)"

text \<open>
  A store for concrete runs: a task of five steps in manual mode, the first three
  completed with artifacts.  \<open>restart_reply_2\<close> is a server's answer to a restart from
  step 2: it reports steps 2 to 4 as pending.
\<close>

definition mk_step :: "int \<Rightarrow> string \<Rightarrow> StepStatus \<Rightarrow> string option \<Rightarrow> int \<Rightarrow> Step" where
  "mk_step i n s e a =
     \<lparr>index = i, name = n, title = n, desc = [], icon = [], status = s, error = e,
      artifact_count = a, progress = None, progress_text = None\<rparr>"

definition five_steps :: "Step list" where
  "five_steps =
     [mk_step 0 ''pdf_to_images'' Completed None 3,
      mk_step 1 ''extract_questions'' Completed None 3,
      mk_step 2 ''analyze_data'' Completed None 5,
      mk_step 3 ''compose_long_image'' Pending None 0,
      mk_step 4 ''collect_results'' Pending None 0]"

definition paused_store :: "TaskMode \<Rightarrow> Step list \<Rightarrow> task_store" where
  "paused_store md xs =
     \<lparr>taskId = Some ''task'', task_status = Paused, mode = md, steps = xs, logs = []\<rparr>"

definition sd :: "StepStatus \<Rightarrow> step_data" where
  "sd s = \<lparr>sd_status = s, sd_error = None, sd_artifact_count = None,
           sd_progress = None, sd_progress_text = None\<rparr>"

definition restart_reply_2 :: "restart_response reply" where
  "restart_reply_2 =
     Resolved \<lparr>message = None,
               response_steps = Some [sd Completed, sd Completed, sd Pending, sd Pending, sd Pending]\<rparr>"

section \<open>The pipeline runner\<close>

text \<open>
  Modelled from the spec: \<open>PipelineRunner.run(task, start_step, run_to_end)\<close>
  (the back end's \<open>pipeline/runner\<close> is not among the sources; the spec's sections 3
  and 4.6 are followed).  What the runner meets at a step is an input: whether the
  step's completion marker is present in the workspace, whether it is forcibly
  overridden, and the error with which executing the step fails, if it does.
\<close>

record step_run =
  marker_present :: bool
  forced :: bool
  fails :: "string option"

text \<open>
  Modelled from the spec: the runner's loop over the steps from index \<open>i\<close> on, \<open>n\<close>
  steps being left (the runner's source is missing).  A step whose marker is present and
  not overridden is marked skipped without being executed; any other step is set to
  running and executed, and becomes completed, or failed, which halts the run.  After a
  step the run goes on only if \<open>run_to_end\<close> is set.  The result lists the status
  transitions in order, each with the step, its new status and the statuses of all steps
  after it.
\<close>

fun run_loop ::
  "(nat \<Rightarrow> step_run) \<Rightarrow> bool \<Rightarrow> nat \<Rightarrow> nat \<Rightarrow> StepStatus list
     \<Rightarrow> (nat \<times> StepStatus \<times> StepStatus list) list" where
  "run_loop meets run_to_end 0 i sts = []"
| "run_loop meets run_to_end (Suc n) i sts =
     (if marker_present (meets i) \<and> \<not> forced (meets i)
      then (i, Skipped, sts[i := Skipped])
           # (if run_to_end then run_loop meets run_to_end n (Suc i) (sts[i := Skipped]) else [])
      else (if sts ! i = Running then [] else [(i, Running, sts[i := Running])])
           @ (case fails (meets i) of
                Some err \<Rightarrow> [(i, Failed, sts[i := Failed])]
              | None \<Rightarrow>
                  (i, Completed, sts[i := Completed])
                  # (if run_to_end
                     then run_loop meets run_to_end n (Suc i) (sts[i := Completed])
                     else [])))"

text \<open>
  Modelled from the spec: \<open>run\<close> itself (the runner's source is missing), which first
  sets the starting step's status to running and then executes the steps from
  \<open>start_step\<close> on.  Automatic mode is \<open>run_to_end = True\<close>, the manual single-step
  mode \<open>run_to_end = False\<close>.
\<close>

definition runner_run ::
  "(nat \<Rightarrow> step_run) \<Rightarrow> nat \<Rightarrow> bool \<Rightarrow> StepStatus list
     \<Rightarrow> (nat \<times> StepStatus \<times> StepStatus list) list" where
  "runner_run meets start_step run_to_end sts =
     (if start_step < length sts
      then (start_step, Running, sts[start_step := Running])
           # run_loop meets run_to_end (length sts - start_step) start_step
               (sts[start_step := Running])
      else [])"

text \<open>
  Modelled from the spec: the condition of the step-state invariant (the runner's source
  is missing), that all steps before step \<open>i\<close> are completed or skipped.
\<close>

definition prior_done :: "StepStatus list \<Rightarrow> nat \<Rightarrow> bool" where
  "prior_done sts i = list_all (\<lambda>s. s = Completed \<or> s = Skipped) (take i sts)"

text \<open>
  A resumed task for concrete runs: the markers of steps 0 and 1 are present, step 2
  runs and completes, step 3 fails.
\<close>

definition resumed_task :: "nat \<Rightarrow> step_run" where
  "resumed_task i =
     \<lparr>marker_present = (i < 2), forced = False,
      fails = (if i = 3 then Some ''boom'' else None)\<rparr>"
section \<open>The SSE reader of the front end (\<open>services/sse.ts\<close>)\<close>

text \<open>
  A JavaScript string is a sequence of UTF-16 code units.  A stream is given by the
  texts that \<open>decoder.decode(value, { stream: true })\<close> returns for the chunks read, and
  by how it ends: \<open>reader.read()\<close> reports \<open>done\<close>, or rejects with some reason.
  The stream is the body of a fresh \<open>fetch\<close> response (the only caller is in
  \<open>useChatStore.ts\<close>), so \<open>getReader()\<close> finds it unlocked.
  \<open>JSON.parse\<close> is a parameter \<open>parse\<close>; \<open>None\<close> stands for the \<open>SyntaxError\<close> it
  throws, which both inner \<open>catch\<close> blocks swallow.
\<close>

type_synonym js_string = "nat list"

text \<open>The line feed, the carriage return and the text \<open>data:\<close>.\<close>

definition LF :: nat where
  "LF = 10"

definition CR :: nat where
  "CR = 13"

definition data_prefix :: js_string where
  "data_prefix = [100, 97, 116, 97, 58]"

text \<open>White space and line terminators, which \<open>trim\<close> and \<open>trimStart\<close> remove.\<close>

definition is_js_space :: "nat \<Rightarrow> bool" where
  "is_js_space c =
     ((9 \<le> c \<and> c \<le> 13) \<or> c = 32 \<or> c = 160 \<or> c = 5760 \<or> (8192 \<le> c \<and> c \<le> 8202)
      \<or> c = 8232 \<or> c = 8233 \<or> c = 8239 \<or> c = 8287 \<or> c = 12288 \<or> c = 65279)"

definition trimStart :: "js_string \<Rightarrow> js_string" where
  "trimStart s = dropWhile is_js_space s"

definition trim :: "js_string \<Rightarrow> js_string" where
  "trim s = rev (dropWhile is_js_space (rev (dropWhile is_js_space s)))"

text \<open>\<open>s.split('\n')\<close>: never empty, \<open>''.split('\n')\<close> is \<open>['']\<close>.\<close>

fun split_lines :: "js_string \<Rightarrow> js_string list" where
  "split_lines [] = [[]]"
| "split_lines (c # cs) =
     (if c = LF then [] # split_lines cs
      else (case split_lines cs of
              l # ls \<Rightarrow> (c # l) # ls
            | [] \<Rightarrow> [[c]]))"

text \<open>\<open>lines.join('\n')\<close>.\<close>

fun join_lines :: "js_string list \<Rightarrow> js_string" where
  "join_lines [] = []"
| "join_lines [l] = l"
| "join_lines (l # k # ls) = l @ LF # join_lines (k # ls)"

definition startsWith :: "js_string \<Rightarrow> js_string \<Rightarrow> bool" where
  "startsWith s p = (take (length p) s = p)"

definition extractData :: "js_string \<Rightarrow> js_string" where
  "extractData rawEvent =
     (let dataLines = filter (\<lambda>l. startsWith l data_prefix) (split_lines rawEvent)
      in if length dataLines = 0 then []
         else trim (join_lines (map (\<lambda>l. trimStart (drop 5 l)) dataLines)))"

text \<open>\<open>buffer.indexOf('\n\n')\<close>; \<open>None\<close> is the result \<open>-1\<close>.\<close>

fun indexOf_blank :: "js_string \<Rightarrow> nat option" where
  "indexOf_blank (c # d # cs) =
     (if c = LF \<and> d = LF then Some 0 else map_option Suc (indexOf_blank (d # cs)))"
| "indexOf_blank cs = None"

text \<open>
  What both loops do with a raw event once it is cut out:
  \<open>dataStr = extractData(rawEvent); if (!dataStr) continue;
  try { yield JSON.parse(dataStr) } catch { }\<close>, that is no value or one.
\<close>

definition yielded :: "(js_string \<Rightarrow> 'a option) \<Rightarrow> js_string \<Rightarrow> 'a list" where
  "yielded parse rawEvent =
     (let dataStr = extractData rawEvent
      in if dataStr = [] then []
         else (case parse dataStr of None \<Rightarrow> [] | Some v \<Rightarrow> [v]))"

text \<open>
  The inner \<open>while (true)\<close>: events are cut off the front of the buffer as long as it
  holds a blank line.  The result is the values yielded and the buffer that is left.
\<close>

function drain :: "(js_string \<Rightarrow> 'a option) \<Rightarrow> js_string \<Rightarrow> 'a list \<times> js_string" where
  "drain parse buffer =
     (case indexOf_blank buffer of
        None \<Rightarrow> ([], buffer)
      | Some boundaryIndex \<Rightarrow>
          (case drain parse (drop (boundaryIndex + 2) buffer) of
             (ys, rest) \<Rightarrow> (yielded parse (take boundaryIndex buffer) @ ys, rest)))"
  by pat_completeness auto
termination
proof (relation "measure (\<lambda>(parse, buffer). length buffer)")
  show "wf (measure (\<lambda>(parse :: js_string \<Rightarrow> 'a option, buffer). length buffer))"
    by simp
next
  fix parse :: "js_string \<Rightarrow> 'a option" and buffer boundaryIndex
  assume "indexOf_blank buffer = Some boundaryIndex"
  then have "buffer \<noteq> []" by (cases buffer) auto
  then show "((parse, drop (boundaryIndex + 2) buffer), (parse, buffer))
      \<in> measure (\<lambda>(parse, buffer). length buffer)"
    by simp
qed

declare drain.simps [simp del]

text \<open>How the generator ends for its consumer: it returns, or it throws.\<close>

datatype 'x finish = Returned | Threw 'x

text \<open>
  The outer \<open>while (true)\<close> and what follows it.  Every chunk is appended to the buffer,
  all carriage returns are removed, and the buffer is drained.  When \<open>reader.read()\<close>
  reports \<open>done\<close> (\<open>ending = None\<close>), what is left in the buffer is treated as one more
  raw event and the generator returns.  When \<open>reader.read()\<close> rejects
  (\<open>ending = Some reason\<close>), the outer \<open>try\<close> has a \<open>finally\<close> and no \<open>catch\<close>:
  the flush is not reached and the rejection leaves the generator.  The \<open>finally\<close>
  block cancels and releases the reader inside its own \<open>try\<close>/\<open>catch\<close> and changes
  neither outcome.
\<close>

fun read_chunks ::
  "(js_string \<Rightarrow> 'a option) \<Rightarrow> js_string \<Rightarrow> js_string list \<Rightarrow> 'x option
     \<Rightarrow> 'a list \<times> 'x finish" where
  "read_chunks parse buffer [] ending =
     (case ending of
        None \<Rightarrow> (yielded parse buffer, Returned)
      | Some reason \<Rightarrow> ([], Threw reason))"
| "read_chunks parse buffer (chunk # stream) ending =
     (case drain parse (filter (\<lambda>c. c \<noteq> CR) (buffer @ chunk)) of
        (ys, buffer') \<Rightarrow>
          (case read_chunks parse buffer' stream ending of
             (zs, fin) \<Rightarrow> (ys @ zs, fin)))"

definition readSseJson ::
  "(js_string \<Rightarrow> 'a option) \<Rightarrow> js_string list \<Rightarrow> 'x option \<Rightarrow> 'a list \<times> 'x finish" where
  "readSseJson parse stream ending = read_chunks parse [] stream ending"

subsection \<open>What the reader is specified to yield\<close>

text \<open>
  The events of a text: the pieces between blank lines, from left to right; the last
  piece is the trailing one, which no blank line closes.
\<close>

fun sse_events :: "js_string \<Rightarrow> js_string list" where
  "sse_events (c # d # cs) =
     (if c = LF \<and> d = LF then [] # sse_events cs
      else (case sse_events (d # cs) of
              e # es \<Rightarrow> (c # e) # es
            | [] \<Rightarrow> [[c]]))"
| "sse_events cs = [cs]"

text \<open>The lines of an event, collected from left to right.\<close>

fun lines_from :: "js_string \<Rightarrow> js_string \<Rightarrow> js_string list" where
  "lines_from line [] = [rev line]"
| "lines_from line (c # cs) =
     (if c = LF then rev line # lines_from [] cs else lines_from (c # line) cs)"

definition event_lines :: "js_string \<Rightarrow> js_string list" where
  "event_lines ev = lines_from [] ev"

text \<open>
  The value of a \<open>data:\<close> line, white space after the colon not counting; \<open>None\<close> for
  any other line.
\<close>

fun data_field :: "js_string \<Rightarrow> js_string option" where
  "data_field (c1 # c2 # c3 # c4 # c5 # rest) =
     (if c1 = 100 \<and> c2 = 97 \<and> c3 = 116 \<and> c4 = 97 \<and> c5 = 58
      then Some (dropWhile is_js_space rest) else None)"
| "data_field line = None"

text \<open>The values joined, a line feed between any two.\<close>

fun joined :: "js_string list \<Rightarrow> js_string" where
  "joined [] = []"
| "joined (v # vs) = v @ concat (map (\<lambda>w. LF # w) vs)"

text \<open>A text without the white space at its end.\<close>

fun without_trailing_space :: "js_string \<Rightarrow> js_string" where
  "without_trailing_space [] = []"
| "without_trailing_space (c # cs) =
     (if without_trailing_space cs = [] \<and> is_js_space c then []
      else c # without_trailing_space cs)"

text \<open>
  The payload of an event: the values of its \<open>data:\<close> lines, joined with newlines,
  without surrounding white space.
\<close>

definition sse_payload :: "js_string \<Rightarrow> js_string" where
  "sse_payload ev =
     without_trailing_space
       (dropWhile is_js_space (joined (List.map_filter data_field (event_lines ev))))"

text \<open>The values of those events whose payload is not empty and parses as JSON.\<close>

definition json_values :: "(js_string \<Rightarrow> 'a option) \<Rightarrow> js_string list \<Rightarrow> 'a list" where
  "json_values parse evs =
     List.map_filter (\<lambda>ev. if sse_payload ev = [] then None else parse (sse_payload ev)) evs"

text \<open>
  For a stream that ends: the values of all its events, the trailing one included.
  For a stream whose read fails: the values of the events that a blank line closes.
\<close>

definition sse_json_values :: "(js_string \<Rightarrow> 'a option) \<Rightarrow> js_string list \<Rightarrow> 'a list" where
  "sse_json_values parse stream =
     json_values parse (sse_events (filter (\<lambda>c. c \<noteq> CR) (concat stream)))"

definition sse_closed_values :: "(js_string \<Rightarrow> 'a option) \<Rightarrow> js_string list \<Rightarrow> 'a list" where
  "sse_closed_values parse stream =
     json_values parse (butlast (sse_events (filter (\<lambda>c. c \<noteq> CR) (concat stream))))"

text \<open>
  A stand-in for \<open>JSON.parse\<close> in concrete runs: it accepts a single decimal digit.
  \<open>js\<close> turns an ASCII text into its code units.
\<close>

definition digit_parse :: "js_string \<Rightarrow> nat option" where
  "digit_parse s =
     (case s of
        [c] \<Rightarrow> if 48 \<le> c \<and> c \<le> 57 then Some (c - 48) else None
      | _ \<Rightarrow> None)"

definition js :: "string \<Rightarrow> js_string" where
  "js s = map of_char s"

chapter \<open>Verified properties\<close>

section \<open>Parameter calculation\<close>

lemma decimal_value_append:
  "decimal_value acc (xs @ ys)
     = (case decimal_value acc xs of None \<Rightarrow> None | Some v \<Rightarrow> decimal_value v ys)"
  by (induction xs arbitrary: acc) auto

lemma digit_char:
  assumes "n < 10"
  shows "(of_char (''0123456789'' ! n) :: nat) = 48 + n"
proof -
  have "\<forall>k \<in> set [0..<10]. (of_char (''0123456789'' ! k) :: nat) = 48 + k"
    by code_simp
  with assms show ?thesis by simp
qed

lemma decimal_value_digit:
  "d < 10 \<Longrightarrow> decimal_value acc [''0123456789'' ! d] = Some (10 * acc + d)"
  by (simp add: digit_char)

lemma decimal_value_str_nat: "decimal_value 0 (str_nat n) = Some n"
proof (induction n rule: str_nat.induct)
  case (1 n)
  show ?case
  proof (cases "n < 10")
    case True
    then show ?thesis
      by (subst str_nat.simps) (simp add: digit_char)
  next
    case False
    with 1 have "decimal_value 0 (str_nat (n div 10)) = Some (n div 10)" by simp
    with False show ?thesis
      by (subst str_nat.simps)
        (simp add: decimal_value_append decimal_value_digit del: decimal_value.simps)
  qed
qed

lemma str_nat_first: "\<exists>c cs. str_nat n = c # cs \<and> 48 \<le> (of_char c :: nat)"
proof (induction n rule: str_nat.induct)
  case (1 n)
  show ?case
  proof (cases "n < 10")
    case True
    then show ?thesis
      by (subst str_nat.simps) (simp add: digit_char)
  next
    case False
    with 1 obtain c cs where "str_nat (n div 10) = c # cs" "48 \<le> (of_char c :: nat)"
      by auto
    with False show ?thesis
      by (subst str_nat.simps) simp
  qed
qed

text \<open>Reading back what \<open>str\<close> wrote gives the number: \<open>str\<close> loses nothing.\<close>

lemma read_int_str_int: "read_int (str_int i) = Some i"
proof (cases "i < 0")
  case True
  obtain c cs where "str_nat (nat (- i)) = c # cs"
    using str_nat_first [of "nat (- i)"] by auto
  with True decimal_value_str_nat [of "nat (- i)"] show ?thesis
    by (simp add: read_int_def str_int_def del: decimal_value.simps)
next
  case False
  obtain c cs where s: "str_nat (nat i) = c # cs" and c: "48 \<le> (of_char c :: nat)"
    using str_nat_first [of "nat i"] by auto
  from c have "c \<noteq> CHR ''-''" by auto
  with False s decimal_value_str_nat [of "nat i"] show ?thesis
    by (simp add: read_int_def str_int_def del: decimal_value.simps)
qed

lemma str_int_6: "str_int 6 = ''6''"
  by code_simp

lemma prefetch_size_finite:
  assumes "\<bar>ram\<bar> \<le> 1000000"
  shows "prefetch_size ram = Inr (max 4 (min (py_trunc (ram / (1 / 2))) 16))"
proof -
  have "\<bar>ram / (1 / 2)\<bar> = 2 * \<bar>ram\<bar>" by simp
  also have "\<dots> < 2 ^ 21" using assms by simp
  also have "(2::real) ^ 21 \<le> 2 ^ 1024" by (rule power_increasing) simp_all
  finally show ?thesis by (simp add: prefetch_size_def)
qed

lemma calculate_optimal_params_returns:
  assumes "calculate_optimal_params hw = Inr p"
  shows "p ''EXAMPAPER_DET_BATCH_SIZE'' = Some (str_int (fst (batch_sizes (vram_of hw))))"
    and "p ''EXAMPAPER_REC_BATCH_SIZE'' = Some (str_int (snd (batch_sizes (vram_of hw))))"
    and "p ''EXAMPAPER_MAX_WORKERS'' = Some (str_int (max_workers (cores_of hw)))"
    and "\<exists>n. prefetch_size (ram_of hw) = Inr n
            \<and> p ''EXAMPAPER_PREFETCH_SIZE'' = Some (str_int n)"
  using assms
  by (auto simp: calculate_optimal_params_def Let_def split: prod.splits sum.splits)

lemma calculate_optimal_params_profile:
  "calculate_optimal_params (profile vram cores) =
     Inr [''EXAMPAPER_DET_BATCH_SIZE'' \<mapsto> str_int (fst (batch_sizes vram)),
          ''EXAMPAPER_REC_BATCH_SIZE'' \<mapsto> str_int (snd (batch_sizes vram)),
          ''EXAMPAPER_PREFETCH_SIZE'' \<mapsto> str_int 16,
          ''EXAMPAPER_MAX_WORKERS'' \<mapsto> str_int (max_workers cores)]"
proof -
  have "prefetch_size 24 = Inr 16"
    by (subst prefetch_size_finite) (simp_all add: py_trunc_def)
  then show ?thesis
    by (simp add: calculate_optimal_params_def profile_def vram_of_def ram_of_def cores_of_def
        Let_def split: prod.splits)
qed

lemma batch_sizes_tiers:
  "batch_sizes 4 = (1, 8)" "batch_sizes 6 = (2, 16)"
  "batch_sizes 8 = (3, 24)" "batch_sizes 12 = (4, 32)"
  by (simp_all add: batch_sizes_def)

text \<open>
  C5: the worker count is claimed to be \<open>clamp(cpu_cores // 2, 2, 4)\<close>, never above 4,
  as the README states for every machine.  For a profile with 12 cores
  \<open>calculate_optimal_params\<close> writes \<open>EXAMPAPER_MAX_WORKERS = 6\<close>: its ceiling is
  \<open>min(cores // 2, 6)\<close>.
\<close>

theorem worker_count_exceeds_4:
  "map_sum id (\<lambda>p. p ''EXAMPAPER_MAX_WORKERS'') (calculate_optimal_params (profile 6 12))
     = Inr (Some ''6'')
   \<and> spec_worker_count 12 = 4
   \<and> max_workers 12 = 6"
  using str_int_6
  by (simp add: calculate_optimal_params_profile max_workers_def spec_worker_count_def)

text \<open>
  C7: for two hardware profiles of which the second has at least the VRAM of the first,
  the detector batch size and the recognizer batch size that
  \<open>calculate_optimal_params\<close> writes for the second are, as numbers, at least those it
  writes for the first.
\<close>

theorem batch_sizes_monotone:
  assumes "vram_of hw1 \<le> vram_of hw2"
    and "calculate_optimal_params hw1 = Inr p1"
    and "calculate_optimal_params hw2 = Inr p2"
  shows "\<exists>d1 d2 r1 r2.
           number_at p1 ''EXAMPAPER_DET_BATCH_SIZE'' = Some d1
         \<and> number_at p2 ''EXAMPAPER_DET_BATCH_SIZE'' = Some d2 \<and> d1 \<le> d2
         \<and> number_at p1 ''EXAMPAPER_REC_BATCH_SIZE'' = Some r1
         \<and> number_at p2 ''EXAMPAPER_REC_BATCH_SIZE'' = Some r2 \<and> r1 \<le> r2"
proof -
  have "fst (batch_sizes (vram_of hw1)) \<le> fst (batch_sizes (vram_of hw2))"
    and "snd (batch_sizes (vram_of hw1)) \<le> snd (batch_sizes (vram_of hw2))"
    using assms(1) by (simp_all add: batch_sizes_def)
  then show ?thesis
    using calculate_optimal_params_returns(1,2) [OF assms(2)]
      calculate_optimal_params_returns(1,2) [OF assms(3)]
    by (simp add: number_at_def read_int_str_int)
qed

theorem batch_sizes_monotone_witness:
  "vram_of (profile 4 8) \<le> vram_of (profile 12 8)
   \<and> (\<exists>p1 p2. calculate_optimal_params (profile 4 8) = Inr p1
        \<and> calculate_optimal_params (profile 12 8) = Inr p2
        \<and> (\<exists>d1 d2 r1 r2.
              number_at p1 ''EXAMPAPER_DET_BATCH_SIZE'' = Some d1
            \<and> number_at p2 ''EXAMPAPER_DET_BATCH_SIZE'' = Some d2 \<and> d1 \<le> d2
            \<and> number_at p1 ''EXAMPAPER_REC_BATCH_SIZE'' = Some r1
            \<and> number_at p2 ''EXAMPAPER_REC_BATCH_SIZE'' = Some r2 \<and> r1 \<le> r2))"
proof -
  have v: "vram_of (profile 4 8) \<le> vram_of (profile 12 8)"
    by (simp add: vram_of_def profile_def)
  obtain p1 p2 where p: "calculate_optimal_params (profile 4 8) = Inr p1"
    "calculate_optimal_params (profile 12 8) = Inr p2"
    by (simp add: calculate_optimal_params_profile)
  from batch_sizes_monotone [OF v p] v p show ?thesis by blast
qed

text \<open>
  The profiles of the claim's example, 4, 6, 8 and 12 GB: the numbers written are 1, 2,
  3, 4 for the detector and 8, 16, 24, 32 for the recognizer.
\<close>

lemma batch_sizes_example:
  "map (\<lambda>vram. map_sum id (\<lambda>p. (number_at p ''EXAMPAPER_DET_BATCH_SIZE'',
                                   number_at p ''EXAMPAPER_REC_BATCH_SIZE''))
                  (calculate_optimal_params (profile vram 8))) [4, 6, 8, 12]
   = [Inr (Some 1, Some 8), Inr (Some 2, Some 16), Inr (Some 3, Some 24), Inr (Some 4, Some 32)]"
  by (simp add: calculate_optimal_params_profile number_at_def read_int_str_int
      batch_sizes_tiers)

section \<open>Hardware detection\<close>

text \<open>
  What \<open>detect_hardware\<close> does when the RAM query returns or fails with
  \<open>ImportError\<close>: it returns a profile, each fallback chosen by its own probe alone.
\<close>

lemma detect_hardware_fallbacks:
  "ram_query = Returns available \<or> ram_query = Raises ImportError \<Longrightarrow>
   detect_hardware gpu_query ram_query os_cpu_count =
     Inr \<lparr>gpu_vram_gb =
            Some (case gpu_query of Returns mb \<Rightarrow> real_of_int mb / 1024 | Raises e \<Rightarrow> 0),
          ram_gb =
            Some (case ram_query of Returns b \<Rightarrow> real_of_int b / 1024 ^ 3 | Raises e \<Rightarrow> 8),
          cpu_cores =
            Some (case os_cpu_count of None \<Rightarrow> 4 | Some n \<Rightarrow> if n = 0 then 4 else n)\<rparr>"
  by (auto simp: detect_hardware_def cpu_count_or_4_def split: outcome.splits)

text \<open>
  C6: \<open>detect_hardware\<close> is claimed never to raise, a failed RAM query giving 8 GB.
  With \<open>psutil\<close> installed and \<open>psutil.virtual_memory()\<close> raising \<open>OSError\<close>, the
  handler \<open>except ImportError\<close> does not apply and the exception leaves
  \<open>detect_hardware\<close>, while the GPU probe's handler catches every \<open>Exception\<close>.
\<close>

theorem detect_hardware_ram_error_propagates:
  "detect_hardware (Returns 6144) (Raises OSError) (Some 8) = Inl OSError"
  by (simp add: detect_hardware_def)

section \<open>The hybrid scheduler\<close>

lemma how_many_update:
  "t < length xs \<Longrightarrow>
   how_many P (xs[t := y]) + (if P (xs ! t) then 1 else 0)
     = how_many P xs + (if P y then 1 else 0)"
  unfolding how_many_def
proof (induction xs arbitrary: t)
  case Nil
  then show ?case by simp
next
  case (Cons x xs)
  then show ?case by (cases t) auto
qed

lemma how_many_mono: "(\<And>x. P x \<Longrightarrow> Q x) \<Longrightarrow> how_many P xs \<le> how_many Q xs"
  unfolding how_many_def by (induction xs) auto

lemma how_many_zero_iff: "how_many P xs = 0 \<longleftrightarrow> (\<forall>x \<in> set xs. \<not> P x)"
  unfolding how_many_def by (induction xs) auto


lemma acquire_step_permits:
  "acquire_step tmax now pc ev m msgs = Some (pc', m', msgs') \<Longrightarrow>
     gpu_sem m' + (if holds_gpu pc' then 1 else 0) = gpu_sem m + (if holds_gpu pc then 1 else 0)
   \<and> cpu_sem m' + (if holds_cpu pc' then 1 else 0) = cpu_sem m + (if holds_cpu pc then 1 else 0)"
  by (cases pc; cases ev)
     (auto simp: release_def split: if_splits option.splits device.splits outcome.splits)

lemma caller_step_conserved:
  assumes "caller_step tmax t ev s = Some s'" and "conserved g c s"
  shows "conserved g c s'"
proof -
  from assms(1) obtain pc' m' msgs' where
    t: "t < length (pcs s)" and
    a: "acquire_step tmax (clock s) (pcs s ! t) ev (mgr s) (logged s) = Some (pc', m', msgs')" and
    s': "s' = s\<lparr>mgr := m', pcs := (pcs s)[t := pc'], logged := msgs'\<rparr>"
    by (auto simp: caller_step_def split: if_splits option.splits)
  from acquire_step_permits [OF a] how_many_update [OF t, of holds_gpu pc']
    how_many_update [OF t, of holds_cpu pc'] assms(2)
  show ?thesis
    by (simp add: conserved_def s' split: if_splits)
qed

lemma sched_step_conserved:
  assumes "sched_step tmax a s = Some s'" and "conserved g c s"
  shows "conserved g c s'"
proof (cases a)
  case (Call t ev)
  with assms show ?thesis
    by (auto simp: sched_step_def intro: caller_step_conserved)
next
  case (Tick d)
  with assms show ?thesis
    by (auto simp: sched_step_def conserved_def split: if_splits)
qed

lemma run_conserved: "conserved g c s \<Longrightarrow> conserved g c (run tmax acts s)"
proof (induction acts arbitrary: s)
  case Nil
  then show ?case by simp
next
  case (Cons a acts)
  show ?case
    using Cons sched_step_conserved [of tmax a s]
    by (auto split: option.splits)
qed

lemma start_conserved: "conserved (gpu_sem m) (cpu_sem m) (start m n)"
  by (simp add: conserved_def start_def how_many_def)



lemma in_body_gpu_holds: "in_body Gpu pc \<Longrightarrow> holds_gpu pc"
  by (cases pc rule: holds_gpu.cases) auto

lemma in_body_cpu_holds: "in_body Cpu pc \<Longrightarrow> holds_cpu pc"
  by (cases pc rule: holds_cpu.cases) auto

lemma at_caller_no_permit: "at_caller pc \<Longrightarrow> \<not> holds_gpu pc \<and> \<not> holds_cpu pc"
  by (cases pc) auto












lemma overflow_run:
  assumes "t < length (pcs s)" and "pcs s ! t = Idle" and "gpu_sem (mgr s) = 0"
    and "cpu_sem (mgr s) = 0" and "too_large tmax timeout"
  shows "run tmax [Call t (Enter lf (Returns timeout)), Call t Begin] s
     = s\<lparr>pcs := (pcs s)[t := Exited (Some OverflowError)]\<rparr>"
  using assms by (simp add: sched_step_def caller_step_def)

lemma manager_init_configured:
  assumes "int_of (getenv env ''EXAMPAPER_CPU_OCR_SLOTS'' ''2'') = Some (int k)"
  shows "manager_init int_of env
     = Inr \<lparr>gpu_pipeline = None, cpu_pipeline = None, gpu_sem = 1, cpu_sem = k\<rparr>"
  using assms by (simp add: manager_init_def)




text \<open>
  C2: for every schedule of every number of concurrent callers, each semaphore's counter
  plus the number of callers currently holding one of its permits equals the initial
  counter, so no more permits are out than the semaphore was built with; and whenever
  every caller has control back (it has not called yet, or its \<open>with\<close> statement was
  left normally or by an exception), both counters are back at their initial values.
\<close>

theorem permits_conserved_and_released:
  "gpu_sem (mgr (run tmax acts (start m n)))
     + how_many holds_gpu (pcs (run tmax acts (start m n))) = gpu_sem m
 \<and> cpu_sem (mgr (run tmax acts (start m n)))
     + how_many holds_cpu (pcs (run tmax acts (start m n))) = cpu_sem m
 \<and> (list_all at_caller (pcs (run tmax acts (start m n))) \<longrightarrow>
       gpu_sem (mgr (run tmax acts (start m n))) = gpu_sem m
     \<and> cpu_sem (mgr (run tmax acts (start m n))) = cpu_sem m)"
proof -
  let ?s = "run tmax acts (start m n)"
  have c: "conserved (gpu_sem m) (cpu_sem m) ?s"
    by (rule run_conserved [OF start_conserved])
  have "how_many holds_gpu (pcs ?s) = 0 \<and> how_many holds_cpu (pcs ?s) = 0"
    if "list_all at_caller (pcs ?s)"
    using that at_caller_no_permit by (auto simp: how_many_zero_iff list_all_iff)
  with c show ?thesis by (auto simp: conserved_def)
qed

theorem permits_conserved_and_released_witness:
  "pcs (run linux_timeout_max exiting_schedule (start two_cpu_slots 3))
     = [Exited (Some RuntimeError), Exited None, Exited (Some OSError)]
   \<and> list_all at_caller (pcs (run linux_timeout_max exiting_schedule (start two_cpu_slots 3)))
   \<and> gpu_sem (mgr (run linux_timeout_max exiting_schedule (start two_cpu_slots 3))) = 1
   \<and> cpu_sem (mgr (run linux_timeout_max exiting_schedule (start two_cpu_slots 3))) = 2"
proof -
  have e: "pcs (run linux_timeout_max exiting_schedule (start two_cpu_slots 3))
     = [Exited (Some RuntimeError), Exited None, Exited (Some OSError)]"
    by (simp add: two_cpu_slots_def exiting_schedule_def in_time_def start_def
        sched_step_def caller_step_def release_def numeral_3_eq_3)
  then have h: "list_all at_caller
      (pcs (run linux_timeout_max exiting_schedule (start two_cpu_slots 3)))"
    by simp
  from permits_conserved_and_released [of linux_timeout_max exiting_schedule two_cpu_slots 3] h
  have "gpu_sem (mgr (run linux_timeout_max exiting_schedule (start two_cpu_slots 3)))
        = gpu_sem two_cpu_slots
      \<and> cpu_sem (mgr (run linux_timeout_max exiting_schedule (start two_cpu_slots 3)))
        = cpu_sem two_cpu_slots"
    by blast
  with e h show ?thesis by (simp add: two_cpu_slots_def)
qed

text \<open>
  C3: with a manager built by \<open>__init__\<close>, in every state that concurrent callers can
  reach at most one caller runs its body with the GPU pipeline, and at most as many run
  their body with the CPU pipeline as \<open>EXAMPAPER_CPU_OCR_SLOTS\<close> (default 2) says.
\<close>

theorem mutual_exclusion:
  assumes "manager_init int_of env = Inr m"
  shows "how_many (in_body Gpu) (pcs (run tmax acts (start m n))) \<le> 1
       \<and> how_many (in_body Cpu) (pcs (run tmax acts (start m n))) \<le> cpu_sem m
       \<and> int_of (getenv env ''EXAMPAPER_CPU_OCR_SLOTS'' ''2'') = Some (int (cpu_sem m))"
proof -
  let ?s = "run tmax acts (start m n)"
  have c: "conserved (gpu_sem m) (cpu_sem m) ?s"
    by (rule run_conserved [OF start_conserved])
  from assms have g: "gpu_sem m = 1"
    and n: "int_of (getenv env ''EXAMPAPER_CPU_OCR_SLOTS'' ''2'') = Some (int (cpu_sem m))"
    by (auto simp: manager_init_def split: option.splits if_splits)
  have "how_many (in_body Gpu) (pcs ?s) \<le> how_many holds_gpu (pcs ?s)"
    by (rule how_many_mono) (rule in_body_gpu_holds)
  moreover have "how_many (in_body Cpu) (pcs ?s) \<le> how_many holds_cpu (pcs ?s)"
    by (rule how_many_mono) (rule in_body_cpu_holds)
  ultimately show ?thesis using c g n by (auto simp: conserved_def)
qed

theorem mutual_exclusion_witness:
  "manager_init plain_int Map.empty = Inr two_cpu_slots
   \<and> how_many (in_body Gpu) (pcs (run linux_timeout_max busy_schedule (start two_cpu_slots 5)))
       \<le> 1
   \<and> how_many (in_body Cpu) (pcs (run linux_timeout_max busy_schedule (start two_cpu_slots 5)))
       \<le> 2
   \<and> pcs (run linux_timeout_max busy_schedule (start two_cpu_slots 5))
       = [Exited (Some OSError), Body (Some 7) Cpu, Body (Some 7) Cpu, Body None Gpu,
          CpuWait False (Num (11 / 10))]"
proof -
  have i: "manager_init plain_int Map.empty = Inr two_cpu_slots"
    by (simp add: manager_init_def getenv_def plain_int_def two_cpu_slots_def)
  have e: "pcs (run linux_timeout_max busy_schedule (start two_cpu_slots 5))
       = [Exited (Some OSError), Body (Some 7) Cpu, Body (Some 7) Cpu, Body None Gpu,
          CpuWait False (Num (11 / 10))]"
    by (simp add: two_cpu_slots_def busy_schedule_def in_time_def start_def
        sched_step_def caller_step_def release_def too_large_def endtime_of_def expired_def
        linux_timeout_max_def eval_nat_numeral)
  from mutual_exclusion [OF i, of linux_timeout_max busy_schedule 5] e i
  show ?thesis by (simp add: two_cpu_slots_def)
qed

section \<open>The page worker pool\<close>

lemma first_error_None_iff: "first_error rs = None \<longleftrightarrow> (\<forall>r \<in> set rs. \<exists>v. r = Inr v)"
  by (induction rs rule: first_error.induct) auto

lemma tagged_results:
  assumes "mset finished = mset [0..<length pages]"
  shows "map (\<lambda>k. (fst (tag_pages pages ! k), infer (snd (tag_pages pages ! k)))) finished
           = map (\<lambda>k. (k, infer (pages ! k))) finished"
proof (rule map_cong [OF refl])
  fix k assume "k \<in> set finished"
  with assms have "k \<in> set [0..<length pages]" by (metis set_mset_mset)
  then show "(fst (tag_pages pages ! k), infer (snd (tag_pages pages ! k))) = (k, infer (pages ! k))"
    by (simp add: tag_pages_def nth_enumerate_eq)
qed

lemma reorder_tagged:
  assumes "mset finished = mset [0..<length pages]"
  shows "reorder (map (\<lambda>k. (k, infer (pages ! k))) finished) = map infer pages"
proof -
  let ?g = "\<lambda>k. (k, infer (pages ! k))"
  let ?xs = "map ?g finished"
  let ?ys = "map ?g [0..<length pages]"
  have m: "mset ?xs = mset ?ys"
    using assms by (metis mset_map)
  have i: "inj_on fst (set ?xs)"
    by (auto simp: inj_on_def)
  have s: "sorted (map fst ?ys)"
    by (simp add: comp_def)
  have "sort_key fst ?xs = ?ys"
    by (rule sort_key_inj_key_eq [OF m i s])
  then have "reorder ?xs = map (\<lambda>k. infer (pages ! k)) [0..<length pages]"
    by (simp add: reorder_def comp_def)
  also have "\<dots> = map infer (map (\<lambda>k. pages ! k) [0..<length pages])"
    by (simp add: comp_def)
  also have "\<dots> = map infer pages"
    by (simp only: map_nth)
  finally show ?thesis .
qed

text \<open>
  C4: when the consumers finish the \<open>N\<close> tagged pages in any order (\<open>finished\<close> is a
  permutation of the indices \<open>0..N-1\<close>), every sequence that \<open>process_pages\<close> returns
  is the sequence of the pages' results in the order of submission, of length \<open>N\<close>;
  and it does return whenever fail-fast is off or no page fails.
\<close>

theorem process_pages_preserves_order:
  assumes "mset finished = mset [0..<length pages]"
  shows "(process_pages fail_fast infer finished pages = Inr rs
            \<longrightarrow> rs = map infer pages \<and> length rs = length pages)
       \<and> (\<not> fail_fast \<or> first_error (map infer pages) = None
            \<longrightarrow> process_pages fail_fast infer finished pages = Inr (map infer pages))"
proof -
  let ?completed = "map (\<lambda>k. (k, infer (pages ! k))) finished"
  have r: "reorder ?completed = map infer pages"
    by (rule reorder_tagged [OF assms])
  have p: "process_pages fail_fast infer finished pages =
      (case (if fail_fast then first_error (map snd ?completed) else None) of
         Some e \<Rightarrow> Inl e | None \<Rightarrow> Inr (map infer pages))"
    unfolding process_pages_def Let_def tagged_results [OF assms] r by (rule refl)
  have "set (map snd ?completed) = set (map infer pages)"
  proof -
    have "set finished = {0..<length pages}"
      using assms by (metis set_mset_mset set_upt)
    then have "set (map snd ?completed) = (\<lambda>k. infer (pages ! k)) ` {0..<length pages}"
      by (simp add: image_image)
    also have "\<dots> = set (map infer (map (\<lambda>k. pages ! k) [0..<length pages]))"
      by (simp add: image_image)
    finally show ?thesis by (simp only: map_nth)
  qed
  then have "first_error (map snd ?completed) = None"
    if "first_error (map infer pages) = None"
    using that by (simp only: first_error_None_iff)
  then show ?thesis
    by (auto simp: p split: option.splits if_splits)
qed

theorem process_pages_preserves_order_witness:
  "mset [2, 0, 1] = mset [0..<length [''p1'', ''page2'', ''p3'']]
   \<and> process_pages False (\<lambda>p. if length p = 5 then Inl ''bad'' else Inr (length p)) [2, 0, 1]
        [''p1'', ''page2'', ''p3'']
       = Inr [Inr 2, Inl ''bad'', Inr 2]"
proof -
  have h: "mset [2, 0, 1] = mset [0..<length [''p1'', ''page2'', ''p3'']]"
    by code_simp
  have r: "process_pages False (\<lambda>p. if length p = 5 then Inl ''bad'' else Inr (length p))
        [2, 0, 1] [''p1'', ''page2'', ''p3''] = Inr [Inr 2, Inl ''bad'', Inr 2]"
    using process_pages_preserves_order [OF h, of False
      "\<lambda>p. if length p = 5 then Inl ''bad'' else Inr (length p)" "[]"]
    by simp
  from h r show ?thesis by (rule conjI)
qed

section \<open>The task store and the pipeline runner\<close>

lemma prior_done_update_self: "prior_done (sts[i := v]) i = prior_done sts i"
  by (simp add: prior_done_def)

lemma prior_done_Suc:
  assumes "i < length sts" and "v = Completed \<or> v = Skipped" and "prior_done sts i"
  shows "prior_done (sts[i := v]) (Suc i)"
  using assms by (simp add: prior_done_def take_Suc_conv_app_nth)

lemma run_loop_prior_done:
  "prior_done sts i \<Longrightarrow> i + n \<le> length sts \<Longrightarrow>
   (j, Running, snap) \<in> set (run_loop meets run_to_end n i sts) \<Longrightarrow> prior_done snap j"
proof (induction n arbitrary: i sts)
  case 0
  then show ?case by simp
next
  case (Suc n)
  from Suc.prems(2) have i: "i < length sts" and n: "Suc i + n \<le> length sts" by simp_all
  have next_step: "prior_done snap j"
    if "v = Completed \<or> v = Skipped"
      and "(j, Running, snap) \<in> set (run_loop meets run_to_end n (Suc i) (sts[i := v]))" for v
  proof (rule Suc.IH [OF _ _ that(2)])
    show "prior_done (sts[i := v]) (Suc i)"
      by (rule prior_done_Suc [OF i that(1) Suc.prems(1)])
    show "Suc i + n \<le> length (sts[i := v])" using n by simp
  qed
  from Suc.prems(3) show ?case
    using next_step [of Skipped] next_step [of Completed] Suc.prems(1)
    by (auto simp: prior_done_update_self split: if_splits option.splits)
qed

lemma runner_run_prior_done:
  assumes "prior_done sts k" and "(j, Running, snap) \<in> set (runner_run meets k run_to_end sts)"
  shows "prior_done snap j"
proof (cases "k < length sts")
  case False
  with assms(2) show ?thesis by (simp add: runner_run_def)
next
  case True
  from assms(2) True
  consider "j = k" "snap = sts[k := Running]"
    | "(j, Running, snap)
         \<in> set (run_loop meets run_to_end (length sts - k) k (sts[k := Running]))"
    by (auto simp: runner_run_def)
  then show ?thesis
  proof cases
    case 1
    with assms(1) show ?thesis by (simp add: prior_done_update_self)
  next
    case 2
    show ?thesis
    proof (rule run_loop_prior_done [OF _ _ 2])
      show "prior_done (sts[k := Running]) k"
        using assms(1) by (simp add: prior_done_update_self)
      show "k + (length sts - k) \<le> length (sts[k := Running])"
        using True by simp
    qed
  qed
qed

text \<open>
  What \<open>canStartStep\<close> decides, in full: the step before the given one is the only
  other step whose status is read, and only outside manual mode.
\<close>

lemma canStartStep_iff:
  "canStartStep st step = Inr True \<longleftrightarrow>
      \<not> isBusy st \<and> status step = Pending \<and> \<not> hasRunning (steps st)
      \<and> (mode st = Manual \<or> index step \<le> 0
          \<or> (\<exists>prevStep. js_nth (steps st) (index step - 1) = Some prevStep
                \<and> status prevStep = Completed))"
  by (auto simp: canStartStep_def split: option.splits)

lemma startStep_sets_running:
  assumes "\<not> no_task st" and "js_nth (steps st) i = Some x"
  shows "status (steps (fst (startStep (Resolved ()) i run_to_end st)) ! nat i) = Running"
proof -
  from assms(2) have "nat i < length (steps st)"
    by (simp add: js_nth_def split: if_splits)
  with assms show ?thesis
    by (simp add: startStep_def addLog_def Let_def)
qed

text \<open>
  C8: in automatic mode a step's status becomes running only when all steps before it
  are completed or skipped, and in manual mode a step may be started whatever the state
  of its predecessors.
  The runner: in a run that goes on to the end (the automatic mode) from a step whose
  predecessors are all completed or skipped, as from step 0, every transition to
  running finds all earlier steps completed or skipped; and a run from step \<open>k\<close> sets
  step \<open>k\<close> to running whatever the statuses of the steps before it.
  The front end: outside manual mode no step can be started, restarted or retried from
  the step controls; in manual mode \<open>canStartStep\<close> reads no other step's completion
  (only that the store is not busy, the step is pending and no step is running), and
  \<open>startStep\<close> marks the step running without looking at its predecessors.
\<close>

theorem running_only_after_prior_steps:
  "(prior_done sts k \<longrightarrow>
      (\<forall>tr \<in> set (runner_run meets k True sts).
         fst (snd tr) = Running \<longrightarrow> prior_done (snd (snd tr)) (fst tr)))
   \<and> (\<forall>tr \<in> set (runner_run meets 0 True sts).
         fst (snd tr) = Running \<longrightarrow> prior_done (snd (snd tr)) (fst tr))
   \<and> (k < length sts \<longrightarrow>
        hd (runner_run meets k run_to_end sts) = (k, Running, sts[k := Running]))
   \<and> (mode st \<noteq> Manual \<longrightarrow>
        \<not> start_offered st step \<and> \<not> restart_offered st step \<and> \<not> retry_offered st step)
   \<and> (mode st = Manual \<longrightarrow>
        canStartStep st step
          = Inr (\<not> isBusy st \<and> status step = Pending \<and> \<not> hasRunning (steps st)))
   \<and> (\<not> no_task st \<and> js_nth (steps st) i = Some x \<longrightarrow>
        status (steps (fst (startStep (Resolved ()) i run_to_end st)) ! nat i) = Running)"
proof -
  have a: "\<forall>tr \<in> set (runner_run meets k' True sts).
         fst (snd tr) = Running \<longrightarrow> prior_done (snd (snd tr)) (fst tr)"
    if "prior_done sts k'" for k'
  proof
    fix tr assume m: "tr \<in> set (runner_run meets k' True sts)"
    show "fst (snd tr) = Running \<longrightarrow> prior_done (snd (snd tr)) (fst tr)"
    proof
      assume "fst (snd tr) = Running"
      with m have "(fst tr, Running, snd (snd tr)) \<in> set (runner_run meets k' True sts)"
        by (metis prod.collapse)
      then show "prior_done (snd (snd tr)) (fst tr)"
        by (rule runner_run_prior_done [OF that])
    qed
  qed
  have z: "prior_done sts 0" by (simp add: prior_done_def)
  have b: "k < length sts \<longrightarrow>
        hd (runner_run meets k run_to_end sts) = (k, Running, sts[k := Running])"
    by (simp add: runner_run_def)
  have c: "mode st \<noteq> Manual \<longrightarrow>
        \<not> start_offered st step \<and> \<not> restart_offered st step \<and> \<not> retry_offered st step"
    by (simp add: start_offered_def restart_offered_def retry_offered_def controls_shown_def)
  have d: "mode st = Manual \<longrightarrow>
        canStartStep st step
          = Inr (\<not> isBusy st \<and> status step = Pending \<and> \<not> hasRunning (steps st))"
    by (simp add: canStartStep_def)
  have e: "\<not> no_task st \<and> js_nth (steps st) i = Some x \<longrightarrow>
        status (steps (fst (startStep (Resolved ()) i run_to_end st)) ! nat i) = Running"
    using startStep_sets_running by blast
  from a [of k] a [OF z] b c d e show ?thesis by blast
qed

theorem running_only_after_prior_steps_witness:
  "prior_done (replicate 5 Pending) 0
   \<and> (2, Running, [Skipped, Skipped, Running, Pending, Pending])
        \<in> set (runner_run resumed_task 0 True (replicate 5 Pending))
   \<and> prior_done [Skipped, Skipped, Running, Pending, Pending] 2
   \<and> (3::nat) < length (replicate 5 Pending)
   \<and> hd (runner_run resumed_task 3 False (replicate 5 Pending))
        = (3, Running, [Pending, Pending, Pending, Running, Pending])
   \<and> \<not> prior_done [Pending, Pending, Pending, Running, Pending] 3
   \<and> mode (paused_store Auto five_steps) \<noteq> Manual
   \<and> \<not> start_offered (paused_store Auto five_steps) (five_steps ! 3)
   \<and> mode (paused_store Manual five_steps) = Manual
   \<and> canStartStep (paused_store Manual five_steps) (five_steps ! 3) = Inr True
   \<and> \<not> no_task (paused_store Manual five_steps)
   \<and> js_nth (steps (paused_store Manual five_steps)) 3 = Some (five_steps ! 3)
   \<and> status (steps (fst (startStep (Resolved ()) 3 False (paused_store Manual five_steps))) ! 3)
        = Running"
proof -
  have h1: "prior_done (replicate 5 Pending) 0"
    by (simp add: prior_done_def)
  have h2: "(2, Running, [Skipped, Skipped, Running, Pending, Pending])
        \<in> set (runner_run resumed_task 0 True (replicate 5 Pending))"
    by (simp add: runner_run_def resumed_task_def eval_nat_numeral)
  have h3: "(3::nat) < length (replicate 5 Pending)" by simp
  have h4: "mode (paused_store Auto five_steps) \<noteq> Manual
      \<and> mode (paused_store Manual five_steps) = Manual"
    by (simp add: paused_store_def)
  have h5: "\<not> no_task (paused_store Manual five_steps)
      \<and> js_nth (steps (paused_store Manual five_steps)) 3 = Some (five_steps ! 3)"
    by (simp add: paused_store_def no_task_def js_nth_def five_steps_def)
  have v: "\<not> isBusy (paused_store Manual five_steps) \<and> status (five_steps ! 3) = Pending
      \<and> \<not> hasRunning (steps (paused_store Manual five_steps))"
    by (simp add: paused_store_def five_steps_def mk_step_def isBusy_def hasRunning_def)
  have n: "\<not> prior_done [Pending, Pending, Pending, Running, Pending] 3"
    by (simp add: prior_done_def eval_nat_numeral)
  have r: "(replicate 5 Pending)[3 := Running] = [Pending, Pending, Pending, Running, Pending]"
    by (simp add: eval_nat_numeral)
  note inst =
    running_only_after_prior_steps [where sts = "replicate 5 Pending" and k = 3
      and meets = resumed_task and run_to_end = False and i = 3 and x = "five_steps ! 3"]
  from inst [where st = "paused_store Manual five_steps" and step = "five_steps ! 3"] h2
  have c1: "prior_done [Skipped, Skipped, Running, Pending, Pending] 2"
    by fastforce
  from inst [where st = "paused_store Manual five_steps" and step = "five_steps ! 3"] h3 r
  have c2: "hd (runner_run resumed_task 3 False (replicate 5 Pending))
        = (3, Running, [Pending, Pending, Pending, Running, Pending])"
    by simp
  from inst [where st = "paused_store Auto five_steps" and step = "five_steps ! 3"] h4
  have c3: "\<not> start_offered (paused_store Auto five_steps) (five_steps ! 3)"
    by blast
  from inst [where st = "paused_store Manual five_steps" and step = "five_steps ! 3"] h4 v
  have c4: "canStartStep (paused_store Manual five_steps) (five_steps ! 3) = Inr True"
    by simp
  from inst [where st = "paused_store Manual five_steps" and step = "five_steps ! 3"] h5
  have c5: "status (steps (fst (startStep (Resolved ()) 3 False (paused_store Manual five_steps)))
        ! nat 3) = Running"
    by blast
  then have c5': "status (steps (fst (startStep (Resolved ()) 3 False
        (paused_store Manual five_steps))) ! 3) = Running"
    by simp
  from h1 h2 c1 h3 c2 n h4 c3 c4 h5 c5' show ?thesis by blast
qed

lemma reset_steps_length: "length (reset_steps stepsData xs) = length xs"
  by (induction stepsData xs rule: reset_steps.induct) auto

text \<open>
  The loop of \<open>restartFromStep\<close> does not look at \<open>stepIndex\<close>: every step that the
  response lists loses its artifact count and its error.
\<close>

lemma reset_steps_nth:
  "i < length xs \<Longrightarrow> i < length stepsData \<Longrightarrow>
   artifact_count (reset_steps stepsData xs ! i) = 0
   \<and> error (reset_steps stepsData xs ! i) = None
   \<and> status (reset_steps stepsData xs ! i) = sd_status (stepsData ! i)"
proof (induction stepsData xs arbitrary: i rule: reset_steps.induct)
  case (1 s stepsData x xs)
  then show ?case by (cases i) auto
qed auto

text \<open>
  C9: a restart from step 2 is claimed to leave what is recorded for steps 0 and 1
  untouched.  In manual mode, with steps 0 to 2 completed (three, three and five
  artifacts), the controls of step 2 offer the restart.  \<open>restartFromStep(2)\<close>, with a
  response that lists all five steps, sets the artifact counts of steps 0 and 1 to 0,
  although the response reports them as completed; the sibling \<open>updateSteps\<close> takes
  each count from the response.  When the \<open>api.startStep\<close> that follows is rejected,
  nothing runs and the store is left with these counts; when it is accepted the counts
  are 0 as well and step 2 is running.  No step before step 2 is started.
\<close>

theorem restartFromStep_zeroes_earlier_counts:
  "restart_offered (paused_store Manual five_steps) (five_steps ! 2)
   \<and> map artifact_count (steps (paused_store Manual five_steps)) = [3, 3, 5, 0, 0]
   \<and> map artifact_count
        (steps (restartFromStep restart_reply_2 Rejected 2 (paused_store Manual five_steps)))
       = [0, 0, 0, 0, 0]
   \<and> map status
        (steps (restartFromStep restart_reply_2 Rejected 2 (paused_store Manual five_steps)))
       = [Completed, Completed, Failed, Pending, Pending]
   \<and> map artifact_count
        (steps (restartFromStep restart_reply_2 (Resolved ()) 2
                  (paused_store Manual five_steps)))
       = [0, 0, 0, 0, 0]
   \<and> map status
        (steps (restartFromStep restart_reply_2 (Resolved ()) 2
                  (paused_store Manual five_steps)))
       = [Completed, Completed, Running, Pending, Pending]
   \<and> map artifact_count
        (updateSteps [sd Completed\<lparr>sd_artifact_count := Some 3\<rparr>,
                      sd Completed\<lparr>sd_artifact_count := Some 3\<rparr>]
           (steps (paused_store Manual five_steps)))
       = [3, 3, 5, 0, 0]"
  by (simp add: restartFromStep_def restart_reply_2_def paused_store_def five_steps_def
      mk_step_def sd_def addLog_def startStep_def js_nth_def no_task_def Let_def
      restart_offered_def controls_shown_def)

section \<open>The SSE reader\<close>

lemma sse_events_not_Nil: "sse_events b \<noteq> []"
  by (induction b rule: sse_events.induct) (auto split: list.splits)

lemma sse_events_no_blank: "indexOf_blank b = None \<Longrightarrow> sse_events b = [b]"
  by (induction b rule: sse_events.induct) (auto split: if_splits)

lemma sse_events_blank:
  "indexOf_blank b = Some i \<Longrightarrow> sse_events b = take i b # sse_events (drop (i + 2) b)"
  by (induction b arbitrary: i rule: sse_events.induct) (auto split: if_splits)

lemma indexOf_blank_bound: "indexOf_blank b = Some i \<Longrightarrow> i + 2 \<le> length b"
  by (induction b arbitrary: i rule: indexOf_blank.induct) (auto split: if_splits)

lemma indexOf_blank_append: "indexOf_blank b = Some i \<Longrightarrow> indexOf_blank (b @ x) = Some i"
  by (induction b arbitrary: i rule: indexOf_blank.induct) (auto split: if_splits)

lemma sse_events_append:
  assumes "indexOf_blank b = Some i"
  shows "sse_events (b @ x) = take i b # sse_events (drop (i + 2) b @ x)"
  using sse_events_blank [OF indexOf_blank_append [OF assms, of x]]
    indexOf_blank_bound [OF assms]
  by simp

lemma drain_rest_no_blank: "drain parse b = (ys, rest) \<Longrightarrow> indexOf_blank rest = None"
proof (induction parse b arbitrary: ys rest rule: drain.induct)
  case (1 parse buffer)
  then show ?case
    by (subst (asm) (2) drain.simps) (auto split: option.splits prod.splits)
qed

lemma drain_rest_subset: "drain parse b = (ys, rest) \<Longrightarrow> set rest \<subseteq> set b"
proof (induction parse b arbitrary: ys rest rule: drain.induct)
  case (1 parse buffer)
  show ?case
  proof (cases "indexOf_blank buffer")
    case None
    with "1.prems" show ?thesis by (simp add: drain.simps)
  next
    case (Some i)
    obtain ys' rest' where d: "drain parse (drop (i + 2) buffer) = (ys', rest')"
      by (cases "drain parse (drop (i + 2) buffer)")
    with "1.prems" Some have "rest = rest'"
      by (subst (asm) drain.simps) simp
    with "1.IH" [OF Some d] set_drop_subset [of "i + 2" buffer] show ?thesis by auto
  qed
qed

text \<open>
  Draining cuts off the events that a blank line closes, whatever text arrives later.
\<close>

lemma drain_events:
  "drain parse b = (ys, rest) \<Longrightarrow>
   \<exists>closed. sse_events (b @ x) = closed @ sse_events (rest @ x)
     \<and> concat (map (yielded parse) closed) = ys"
proof (induction parse b arbitrary: ys rest rule: drain.induct)
  case (1 parse buffer)
  show ?case
  proof (cases "indexOf_blank buffer")
    case None
    with "1.prems" show ?thesis by (simp add: drain.simps)
  next
    case (Some i)
    obtain ys' rest' where d: "drain parse (drop (i + 2) buffer) = (ys', rest')"
      by (cases "drain parse (drop (i + 2) buffer)")
    with "1.prems" Some have e: "ys = yielded parse (take i buffer) @ ys'" "rest = rest'"
      by (subst (asm) drain.simps, simp)+
    from "1.IH" [OF Some d] obtain closed
      where c: "sse_events (drop (i + 2) buffer @ x) = closed @ sse_events (rest' @ x)"
        "concat (map (yielded parse) closed) = ys'"
      by blast
    have "sse_events (buffer @ x) = (take i buffer # closed) @ sse_events (rest @ x)
        \<and> concat (map (yielded parse) (take i buffer # closed)) = ys"
      using c e by (simp add: sse_events_append [OF Some])
    then show ?thesis by blast
  qed
qed

lemma read_chunks_events:
  "CR \<notin> set buffer \<Longrightarrow> indexOf_blank buffer = None \<Longrightarrow>
   read_chunks parse buffer stream ending
     = (case ending of
          None \<Rightarrow>
            (concat (map (yielded parse)
               (sse_events (buffer @ filter (\<lambda>c. c \<noteq> CR) (concat stream)))), Returned)
        | Some reason \<Rightarrow>
            (concat (map (yielded parse)
               (butlast (sse_events (buffer @ filter (\<lambda>c. c \<noteq> CR) (concat stream))))),
             Threw reason))"
proof (induction stream arbitrary: buffer)
  case Nil
  then show ?case by (simp add: sse_events_no_blank split: option.splits)
next
  case (Cons chunk stream)
  let ?b = "filter (\<lambda>c. c \<noteq> CR) (buffer @ chunk)"
  let ?x = "filter (\<lambda>c. c \<noteq> CR) (concat stream)"
  obtain ys buffer' where d: "drain parse ?b = (ys, buffer')"
    by (cases "drain parse ?b")
  have fb: "filter (\<lambda>c. c \<noteq> CR) buffer = buffer"
    using Cons.prems(1) by (auto simp: filter_id_conv)
  then have d': "drain parse (buffer @ filter (\<lambda>c. c \<noteq> CR) chunk) = (ys, buffer')"
    using d by simp
  have "CR \<notin> set buffer'"
    using drain_rest_subset [OF d] by auto
  then have ih: "read_chunks parse buffer' stream ending
     = (case ending of
          None \<Rightarrow> (concat (map (yielded parse) (sse_events (buffer' @ ?x))), Returned)
        | Some reason \<Rightarrow>
            (concat (map (yielded parse) (butlast (sse_events (buffer' @ ?x)))), Threw reason))"
    using drain_rest_no_blank [OF d] by (rule Cons.IH)
  from drain_events [OF d', of ?x] obtain closed
    where c: "sse_events ((buffer @ filter (\<lambda>c. c \<noteq> CR) chunk) @ ?x)
          = closed @ sse_events (buffer' @ ?x)"
      "concat (map (yielded parse) closed) = ys"
    by blast
  have bl: "butlast (closed @ sse_events (buffer' @ ?x))
      = closed @ butlast (sse_events (buffer' @ ?x))"
    by (simp add: butlast_append sse_events_not_Nil)
  from c(1) have c': "sse_events (buffer @ filter (\<lambda>c. c \<noteq> CR) chunk @ ?x)
          = closed @ sse_events (buffer' @ ?x)"
    by simp
  show ?case
    by (simp add: fb d' ih c' c(2) bl split: option.splits)
qed

text \<open>The reader's string operations are the ones their names say.\<close>

lemma split_lines_not_Nil: "split_lines s \<noteq> []"
  by (induction s) (auto split: list.splits)

lemma lines_from_split_lines:
  "lines_from line s = (rev line @ hd (split_lines s)) # tl (split_lines s)"
proof (induction s arbitrary: line)
  case Nil
  show ?case by simp
next
  case (Cons c cs)
  obtain l ls where s: "split_lines cs = l # ls"
    using split_lines_not_Nil [of cs] by (cases "split_lines cs") auto
  show ?case by (simp add: Cons.IH s)
qed

lemma event_lines_split_lines: "event_lines ev = split_lines ev"
  using split_lines_not_Nil [of ev]
  by (simp add: event_lines_def lines_from_split_lines)

lemma joined_join_lines: "joined ls = join_lines ls"
  by (induction ls rule: join_lines.induct) simp_all

lemma data_field_startsWith:
  "data_field l = (if startsWith l data_prefix then Some (trimStart (drop 5 l)) else None)"
  by (cases l rule: data_field.cases)
    (auto simp: startsWith_def data_prefix_def trimStart_def)

lemma data_fields:
  "List.map_filter data_field ls
     = map (\<lambda>l. trimStart (drop 5 l)) (filter (\<lambda>l. startsWith l data_prefix) ls)"
  by (induction ls) (simp_all add: List.map_filter_simps data_field_startsWith)

lemma without_trailing_space_Nil_iff:
  "without_trailing_space s = [] \<longleftrightarrow> (\<forall>c \<in> set s. is_js_space c)"
  by (induction s) auto

lemma without_trailing_space_rev:
  "without_trailing_space s = rev (dropWhile is_js_space (rev s))"
proof (induction s)
  case Nil
  show ?case by simp
next
  case (Cons c cs)
  show ?case
  proof (cases "\<forall>x \<in> set cs. is_js_space x")
    case True
    then have "without_trailing_space cs = []"
      by (simp add: without_trailing_space_Nil_iff)
    with True show ?thesis by (simp add: dropWhile_append)
  next
    case False
    then have "without_trailing_space cs \<noteq> []"
      by (simp add: without_trailing_space_Nil_iff)
    with False Cons.IH show ?thesis by (simp add: dropWhile_append)
  qed
qed

lemma extractData_payload: "extractData ev = sse_payload ev"
proof (cases "filter (\<lambda>l. startsWith l data_prefix) (split_lines ev) = []")
  case True
  then show ?thesis
    by (simp add: extractData_def sse_payload_def event_lines_split_lines data_fields)
next
  case False
  then show ?thesis
    by (simp add: extractData_def sse_payload_def event_lines_split_lines data_fields
        joined_join_lines without_trailing_space_rev trim_def)
qed

lemma concat_yielded: "concat (map (yielded parse) evs) = json_values parse evs"
  unfolding json_values_def
  by (induction evs)
    (auto simp: yielded_def extractData_payload List.map_filter_simps split: option.splits)

text \<open>
  C10, as stated: for every input stream the reader never throws and still flushes the
  trailing event.  On a stream that delivers \<open>data: 1\<close>, a blank line and \<open>data: 2\<close>
  in one chunk and whose next read is rejected (the connection drops), the reader yields
  1 and then throws the rejection; the trailing event is not flushed.  Had the stream
  ended instead, the reader would have yielded 1 and 2 and returned.
\<close>

theorem readSseJson_rethrows_rejected_read:
  "readSseJson digit_parse [js ''data: 1\<newline>\<newline>data: 2''] (Some ''network error'')
     = ([1], Threw ''network error'')
   \<and> readSseJson digit_parse [js ''data: 1\<newline>\<newline>data: 2''] (None :: string option)
     = ([1, 2], Returned)"
  by (simp add: readSseJson_def js_def drain.simps LF_def CR_def yielded_def extractData_def
      data_prefix_def startsWith_def trim_def trimStart_def is_js_space_def digit_parse_def)

text \<open>
  C10, amended: for every stream, however it is cut into chunks, whose reads are not
  rejected, \<open>readSseJson\<close> returns without throwing (every \<open>JSON.parse\<close> error is
  caught) and yields, in stream order, exactly the parsed payloads of the blank-line
  delimited events of the text, multi-line data joined with newlines; events without
  data or with a payload that does not parse are skipped, and the trailing event that no
  blank line closes is included.  When a read is rejected, the reader has yielded the
  same for the events that a blank line closes, throws the rejection and does not flush
  the trailing event.
\<close>

theorem readSseJson_yields_json_events:
  "readSseJson parse stream None = (sse_json_values parse stream, Returned)
   \<and> readSseJson parse stream (Some reason) = (sse_closed_values parse stream, Threw reason)"
  by (simp add: readSseJson_def sse_json_values_def sse_closed_values_def read_chunks_events
      concat_yielded)

text \<open>
  A run on three chunks that cut an event in two: a comment event and an event whose
  data does not parse are skipped, and the trailing event is flushed.
\<close>

lemma readSseJson_example:
  "readSseJson digit_parse
     [js ''data: 1\<newline>\<newline>da'', js ''ta:2\<newline>id: 7\<newline>\<newline>: ping\<newline>\<newline>data: x\<newline>'',
      js ''\<newline>data:\<newline>data: 3''] (None :: unit option)
   = ([1, 2, 3], Returned)"
  by (simp add: readSseJson_def js_def drain.simps LF_def CR_def yielded_def extractData_def
      data_prefix_def startsWith_def trim_def trimStart_def is_js_space_def digit_parse_def)

text \<open>The specified values of the same text, computed without the reader.\<close>

lemma sse_json_values_example:
  "sse_json_values digit_parse
     [js ''data: 1\<newline>\<newline>da'', js ''ta:2\<newline>id: 7\<newline>\<newline>: ping\<newline>\<newline>data: x\<newline>'',
      js ''\<newline>data:\<newline>data: 3'']
   = [1, 2, 3]"
  by (simp add: sse_json_values_def json_values_def sse_payload_def event_lines_def js_def
      LF_def CR_def is_js_space_def digit_parse_def List.map_filter_simps)

end
